theory Spec2Isabelle
  imports Complex_Main "HOL-Library.Sublist" "HOL-Library.Log_Nat"
begin

section \<open>JavaScript values used by \<open>src/utils/slack.js\<close>\<close>

text \<open>
  The program is JavaScript. Its strings are modelled as \<^typ>\<open>string\<close>, restricted to
  code units below 256; a value that may be \<open>undefined\<close> is an \<^typ>\<open>string option\<close>
  with \<open>None\<close> for \<open>undefined\<close>.

  A JavaScript Number is an IEEE 754 double. The model keeps the three special
  values and represents a finite double by the rational it denotes; every operation
  that produces a Number rounds its exact result with \<open>to_double\<close>. The two zeros are
  one value: the program never divides by a Number, so their sign is not observable.
\<close>

datatype jsnum = NaN | PInf | NInf | Fin rat

subsection \<open>Rounding to a double\<close>

definition pow2 :: "int \<Rightarrow> rat" where
  "pow2 e = (if 0 \<le> e then 2 ^ nat e else 1 / 2 ^ nat (- e))"

text \<open>The binary exponent of a positive rational: \<open>2^e \<le> x < 2^(e+1)\<close>.\<close>

definition floor_log2 :: "rat \<Rightarrow> int" where
  "floor_log2 x =
     (let (p, q) = quotient_of x; e = bitlen p - bitlen q
      in if pow2 e \<le> x then e else e - 1)"

text \<open>The nearest integer, a tie going to the even one.\<close>

definition round_half_even :: "rat \<Rightarrow> int" where
  "round_half_even y =
     (let f = \<lfloor>y\<rfloor>; d = y - of_int f
      in if d < 1 / 2 then f else if 1 / 2 < d then f + 1
         else if even f then f else f + 1)"

text \<open>
  The double nearest to a rational (round to nearest, ties to even): a significand of
  53 bits, the unit in the last place no smaller than \<open>2^-1074\<close> (so that tiny values
  become subnormal or zero), and an infinity once the rounded value reaches \<open>2^1024\<close>.
\<close>

definition to_double :: "rat \<Rightarrow> jsnum" where
  "to_double x =
     (if x = 0 then Fin 0
      else
        let e = floor_log2 \<bar>x\<bar>;
            q = max (e - 52) (- 1074);
            n = round_half_even (x / pow2 q)
        in if 971 < q \<or> (q = 971 \<and> \<bar>n\<bar> = 9007199254740992)
           then (if 0 < x then PInf else NInf)
           else Fin (of_int n * pow2 q))"

subsection \<open>Tests and arithmetic\<close>

definition js_isNaN :: "jsnum \<Rightarrow> bool" where
  "js_isNaN x = (x = NaN)"

text \<open>Truthiness of a Number: \<open>NaN\<close> and zero are falsy.\<close>

definition num_truthy :: "jsnum \<Rightarrow> bool" where
  "num_truthy x = (x \<noteq> NaN \<and> x \<noteq> Fin 0)"

text \<open>Truthiness of a possibly undefined string: \<open>undefined\<close> and \<open>""\<close> are falsy.\<close>

definition str_truthy :: "string option \<Rightarrow> bool" where
  "str_truthy s = (s \<noteq> None \<and> s \<noteq> Some [])"

text \<open>\<open>a || b\<close> for a possibly undefined string \<open>a\<close> and a string literal \<open>b\<close>.\<close>

definition str_or :: "string option \<Rightarrow> string \<Rightarrow> string" where
  "str_or a b = (case a of None \<Rightarrow> b | Some s \<Rightarrow> if s = [] then b else s)"

fun js_sub :: "jsnum \<Rightarrow> jsnum \<Rightarrow> jsnum" where
  "js_sub NaN _ = NaN"
| "js_sub _ NaN = NaN"
| "js_sub PInf PInf = NaN"
| "js_sub NInf NInf = NaN"
| "js_sub PInf _ = PInf"
| "js_sub NInf _ = NInf"
| "js_sub (Fin a) PInf = NInf"
| "js_sub (Fin a) NInf = PInf"
| "js_sub (Fin a) (Fin b) = to_double (a - b)"

fun js_abs :: "jsnum \<Rightarrow> jsnum" where
  "js_abs NaN = NaN"
| "js_abs PInf = PInf"
| "js_abs NInf = PInf"
| "js_abs (Fin a) = Fin \<bar>a\<bar>"

text \<open>\<open>a < b\<close> on Numbers: false as soon as one side is \<open>NaN\<close>.\<close>

fun js_lt :: "jsnum \<Rightarrow> jsnum \<Rightarrow> bool" where
  "js_lt NaN _ = False"
| "js_lt _ NaN = False"
| "js_lt PInf _ = False"
| "js_lt NInf NInf = False"
| "js_lt NInf _ = True"
| "js_lt (Fin a) PInf = True"
| "js_lt (Fin a) NInf = False"
| "js_lt (Fin a) (Fin b) = (a < b)"

subsection \<open>Strings to Numbers\<close>

text \<open>
  White space of the \<open>StrWhiteSpaceChar\<close> production, among the code units below 256:
  TAB, LF, VT, FF, CR, SP and NBSP.
\<close>

definition is_ws :: "char \<Rightarrow> bool" where
  "is_ws c = (of_char c \<in> {9, 10, 11, 12, 13, 32, 160 :: int})"

definition is_digit :: "char \<Rightarrow> bool" where
  "is_digit c = (48 \<le> (of_char c :: int) \<and> (of_char c :: int) \<le> 57)"

definition digit_val :: "char \<Rightarrow> int" where
  "digit_val c = of_char c - 48"

definition digit_char :: "int \<Rightarrow> char" where
  "digit_char n = char_of (48 + n)"

definition digits_val :: "string \<Rightarrow> int" where
  "digits_val ds = foldl (\<lambda>a c. 10 * a + digit_val c) 0 ds"

definition trim :: "string \<Rightarrow> string" where
  "trim s = rev (dropWhile is_ws (rev (dropWhile is_ws s)))"

text \<open>An optional sign: the factor it stands for and the rest of the string.\<close>

fun scan_sign :: "string \<Rightarrow> int \<times> string" where
  "scan_sign [] = (1, [])"
| "scan_sign (c # r) =
     (if c = CHR ''+'' then (1, r) else if c = CHR ''-'' then (-1, r) else (1, c # r))"

text \<open>
  An optional \<open>ExponentPart\<close>: \<open>e\<close> or \<open>E\<close>, an optional sign and at least one digit.
  When the digits are missing no exponent is read and the string is returned whole.
\<close>

definition scan_exponent :: "string \<Rightarrow> int \<times> string" where
  "scan_exponent s =
     (case s of
        [] \<Rightarrow> (0, s)
      | c # r \<Rightarrow>
          if c = CHR ''e'' \<or> c = CHR ''E'' then
            (let (sg, r1) = scan_sign r; ds = takeWhile is_digit r1
             in if ds = [] then (0, s)
                else (sg * digits_val ds, dropWhile is_digit r1))
          else (0, s))"

definition pow10 :: "int \<Rightarrow> rat" where
  "pow10 e = (if 0 \<le> e then 10 ^ nat e else 1 / 10 ^ nat (- e))"

text \<open>
  The longest prefix of a string that is a \<open>StrDecimalLiteral\<close>, with its value
  (the double nearest to the number written) and the rest of the string; \<open>None\<close>
  when no prefix is one.
\<close>

definition scan_decimal :: "string \<Rightarrow> (jsnum \<times> string) option" where
  "scan_decimal s =
     (let (sg, s1) = scan_sign s in
      if prefix ''Infinity'' s1 then Some (if sg = 1 then PInf else NInf, drop 8 s1)
      else
        let ip = takeWhile is_digit s1;
            r1 = dropWhile is_digit s1;
            (fp, r2) = (case r1 of
                          [] \<Rightarrow> ([], r1)
                        | c # r \<Rightarrow>
                            if c = CHR ''.'' \<and> (ip \<noteq> [] \<or> takeWhile is_digit r \<noteq> [])
                            then (takeWhile is_digit r, dropWhile is_digit r)
                            else ([], r1))
        in if ip = [] \<and> fp = [] then None
           else
             let (e, r3) = scan_exponent r2;
                 m = of_int (digits_val ip) + of_int (digits_val fp) / 10 ^ length fp
             in Some (to_double (of_int sg * m * pow10 e), r3))"

text \<open>Digits of a \<open>NonDecimalIntegerLiteral\<close> in base 2, 8 or 16.\<close>

definition radix_digit :: "int \<Rightarrow> char \<Rightarrow> int option" where
  "radix_digit b c =
     (let n = (of_char c :: int);
          v = (if 48 \<le> n \<and> n \<le> 57 then Some (n - 48)
               else if 97 \<le> n \<and> n \<le> 102 then Some (n - 87)
               else if 65 \<le> n \<and> n \<le> 70 then Some (n - 55)
               else None)
      in case v of None \<Rightarrow> None | Some d \<Rightarrow> if d < b then Some d else None)"

fun radix_val :: "int \<Rightarrow> int \<Rightarrow> string \<Rightarrow> int option" where
  "radix_val b acc [] = Some acc"
| "radix_val b acc (c # cs) =
     (case radix_digit b c of None \<Rightarrow> None | Some d \<Rightarrow> radix_val b (b * acc + d) cs)"

definition radix_of :: "char \<Rightarrow> int option" where
  "radix_of c =
     (if c = CHR ''x'' \<or> c = CHR ''X'' then Some 16
      else if c = CHR ''o'' \<or> c = CHR ''O'' then Some 8
      else if c = CHR ''b'' \<or> c = CHR ''B'' then Some 2
      else None)"

text \<open>
  \<open>Number(s)\<close> on a string (the abstract operation \<open>StringToNumber\<close>): white space is
  trimmed on both sides, the empty string is \<open>0\<close>, and anything that is not a whole
  \<open>StrNumericLiteral\<close> is \<open>NaN\<close>.
\<close>

definition decimal_Number :: "string \<Rightarrow> jsnum" where
  "decimal_Number t = (case scan_decimal t of Some (v, []) \<Rightarrow> v | _ \<Rightarrow> NaN)"

definition Number :: "string \<Rightarrow> jsnum" where
  "Number s =
     (let t = trim s in
      case t of
        [] \<Rightarrow> Fin 0
      | [_] \<Rightarrow> decimal_Number t
      | z # p # ds \<Rightarrow>
          (case (if z = CHR ''0'' then radix_of p else None) of
             Some b \<Rightarrow>
               (if ds = [] then NaN
                else case radix_val b 0 ds of None \<Rightarrow> NaN | Some n \<Rightarrow> to_double (of_int n))
           | None \<Rightarrow> decimal_Number t))"

text \<open>
  \<open>parseFloat(s)\<close>: leading white space is skipped and the longest prefix that is a
  \<open>StrDecimalLiteral\<close> is read; \<open>NaN\<close> when there is none.
\<close>

definition parseFloat :: "string \<Rightarrow> jsnum" where
  "parseFloat s =
     (case scan_decimal (dropWhile is_ws s) of Some (v, _) \<Rightarrow> v | None \<Rightarrow> NaN)"

text \<open>\<open>s.split(c)\<close> for a one-character separator: always at least one piece.\<close>

fun split :: "char \<Rightarrow> string \<Rightarrow> string list" where
  "split c [] = [[]]"
| "split c (x # xs) =
     (if x = c then [] # split c xs
      else (case split c xs of [] \<Rightarrow> [[x]] | p # ps \<Rightarrow> (x # p) # ps))"

text \<open>
  The decimal string of an integer, as a template literal renders a Number that is an
  integer of magnitude below \<open>10^21\<close>.
\<close>

function show_digits :: "int \<Rightarrow> string" where
  "show_digits n =
     (if n < 10 then [digit_char n] else show_digits (n div 10) @ [digit_char (n mod 10)])"
  by pat_completeness auto
termination
  by (relation "measure nat") auto

definition show_int :: "int \<Rightarrow> string" where
  "show_int i = (if i < 0 then CHR ''-'' # show_digits (- i) else show_digits i)"

section \<open>The \<open>Date\<close> constructor\<close>

text \<open>
  \<open>new Date(year, month, day, hours, minutes, seconds)\<close> reads its arguments as a local
  time of the host. The host's time zone is a parameter of the model: the offset (in
  milliseconds) that the host applies to a local time value, and the one it applies to
  a UTC time value (the two readings of \<open>LocalTZA\<close>).
\<close>

record timezone =
  tza_local :: "int \<Rightarrow> int"
  tza_utc :: "int \<Rightarrow> int"

definition msPerDay :: int where "msPerDay = 86400000"
definition msPerHour :: int where "msPerHour = 3600000"
definition msPerMinute :: int where "msPerMinute = 60000"
definition msPerSecond :: int where "msPerSecond = 1000"

text \<open>The largest magnitude of a time value: 8.64e15 milliseconds.\<close>

definition maxTime :: int where "maxTime = 8640000000000000"

definition DayFromYear :: "int \<Rightarrow> int" where
  "DayFromYear y =
     365 * (y - 1970) + (y - 1969) div 4 - (y - 1901) div 100 + (y - 1601) div 400"

definition is_leap :: "int \<Rightarrow> bool" where
  "is_leap y = (y mod 4 = 0 \<and> (y mod 100 \<noteq> 0 \<or> y mod 400 = 0))"

text \<open>The day within the year on which month \<open>mn\<close> (0 to 11) starts.\<close>

definition month_start :: "bool \<Rightarrow> int \<Rightarrow> int" where
  "month_start leap mn =
     (if mn = 0 then 0 else if mn = 1 then 31
      else (if leap then 1 else 0) +
        (if mn = 2 then 59 else if mn = 3 then 90 else if mn = 4 then 120
         else if mn = 5 then 151 else if mn = 6 then 181 else if mn = 7 then 212
         else if mn = 8 then 243 else if mn = 9 then 273 else if mn = 10 then 304
         else 334))"

text \<open>\<open>ToIntegerOrInfinity\<close> on a finite value: truncation towards zero.\<close>

definition trunc :: "rat \<Rightarrow> int" where
  "trunc r = (if 0 \<le> r then \<lfloor>r\<rfloor> else \<lceil>r\<rceil>)"

text \<open>
  The arithmetic of the constructor is double arithmetic on integers. \<open>dbl\<close> is the
  double nearest to an integer, which is an integer again; \<open>None\<close> stands for a
  result that is not finite (an infinity or \<open>NaN\<close>), which the constructor turns into
  an invalid date wherever it arises.
\<close>

definition dbl :: "int \<Rightarrow> int option" where
  "dbl n = (case to_double (of_int n) of Fin r \<Rightarrow> Some \<lfloor>r\<rfloor> | _ \<Rightarrow> None)"

definition mul_d :: "int option \<Rightarrow> int option \<Rightarrow> int option" where
  "mul_d a b = (case (a, b) of (Some x, Some y) \<Rightarrow> dbl (x * y) | _ \<Rightarrow> None)"

definition add_d :: "int option \<Rightarrow> int option \<Rightarrow> int option" where
  "add_d a b = (case (a, b) of (Some x, Some y) \<Rightarrow> dbl (x + y) | _ \<Rightarrow> None)"

text \<open>
  \<open>MakeDay\<close>, as the engine of Node.js computes it. Months outside 0 to 11 carry into
  the year, and the day of the month is added without any check against the length of
  the month. The result is \<open>NaN\<close> only for an argument that is not finite, a year
  beyond a million or a month beyond ten million in magnitude (ECMAScript leaves the
  accepted range to the implementation).
\<close>

definition MakeDay :: "jsnum \<Rightarrow> jsnum \<Rightarrow> jsnum \<Rightarrow> int option" where
  "MakeDay year month date =
     (case (year, month, date) of
        (Fin y, Fin m, Fin dt) \<Rightarrow>
          if - 1000000 \<le> y \<and> y \<le> 1000000 \<and> - 10000000 \<le> m \<and> m \<le> 10000000 then
            (let ym = trunc y + trunc m div 12;
                 mn = trunc m mod 12
             in dbl (DayFromYear ym + month_start (is_leap ym) mn - 1 + trunc dt))
          else None
      | _ \<Rightarrow> None)"

definition MakeTime :: "jsnum \<Rightarrow> jsnum \<Rightarrow> jsnum \<Rightarrow> jsnum \<Rightarrow> int option" where
  "MakeTime hour minute sec ms =
     (case (hour, minute, sec, ms) of
        (Fin h, Fin m, Fin s, Fin milli) \<Rightarrow>
          add_d
            (add_d
               (add_d (mul_d (Some (trunc h)) (Some msPerHour))
                      (mul_d (Some (trunc m)) (Some msPerMinute)))
               (mul_d (Some (trunc s)) (Some msPerSecond)))
            (Some (trunc milli))
      | _ \<Rightarrow> None)"

definition MakeDate :: "int option \<Rightarrow> int option \<Rightarrow> int option" where
  "MakeDate day time = add_d (mul_d day (Some msPerDay)) time"

definition UTC :: "timezone \<Rightarrow> int \<Rightarrow> int" where
  "UTC tz t = t - tza_local tz t"

definition TimeClip :: "int \<Rightarrow> int option" where
  "TimeClip t = (if \<bar>t\<bar> > maxTime then None else Some t)"

text \<open>
  The time value of \<open>new Date(year, month, day, hours, minutes, seconds)\<close>; \<open>None\<close> is
  \<open>NaN\<close> (an invalid date). A year from 0 to 99 stands for 1900 to 1999.
\<close>

definition Date :: "timezone \<Rightarrow> jsnum \<Rightarrow> jsnum \<Rightarrow> jsnum \<Rightarrow> jsnum \<Rightarrow> jsnum \<Rightarrow> jsnum \<Rightarrow> int option" where
  "Date tz year month day hours minutes seconds =
     (let yr = (case year of
                  Fin y \<Rightarrow> if 0 \<le> trunc y \<and> trunc y \<le> 99 then Fin (of_int (1900 + trunc y)) else year
                | _ \<Rightarrow> year)
      in case MakeDate (MakeDay yr month day) (MakeTime hours minutes seconds (Fin 0)) of
           None \<Rightarrow> None
         | Some t \<Rightarrow> TimeClip (UTC tz t))"

section \<open>Errors\<close>

text \<open>
  A thrown value: its \<open>message\<close> and, for an error raised by the HTTP client, the
  \<open>error\<close> field of the response body (\<open>error.response?.data?.error\<close>), which is
  \<open>undefined\<close> for every error the program creates itself.
\<close>

datatype exn = Exn (exn_message: string) (response_error: "string option")

definition Error :: "string \<Rightarrow> exn" where
  "Error m = Exn m None"

section \<open>\<open>parseDateTime\<close>\<close>

text \<open>The \<open>try\<close> block of \<open>parseDateTime\<close> (lines 21 to 45).\<close>

definition parseDateTime_try :: "timezone \<Rightarrow> string option \<Rightarrow> string option \<Rightarrow> exn + int" where
  "parseDateTime_try tz dateStr timeStr =
     (if \<not> str_truthy dateStr \<or> \<not> str_truthy timeStr then
        Inl (Error ''Date and time are required'')
      else
        case map Number (split (CHR ''/'') (the dateStr)) of
          day # month # year # _ \<Rightarrow>
            if \<not> num_truthy day \<or> \<not> num_truthy month \<or> \<not> num_truthy year then
              Inl (Error ''Invalid date format. Use dd/mm/yyyy'')
            else
              let timeParts = map Number (split (CHR '':'') (the timeStr)) in
              (case timeParts of
                 hours # minutes # rest \<Rightarrow>
                   if list_ex js_isNaN timeParts then
                     Inl (Error ''Invalid time format. Use hh:mm or hh:mm:ss'')
                   else
                     let seconds = (case rest of
                                      [] \<Rightarrow> Fin 0
                                    | s # _ \<Rightarrow> if num_truthy s then s else Fin 0)
                     in (case Date tz year (js_sub month (Fin 1)) day hours minutes seconds of
                           None \<Rightarrow> Inl (Error ''Invalid date or time values'')
                         | Some t \<Rightarrow> Inr (t div 1000))
               | _ \<Rightarrow> Inl (Error ''Invalid time format. Use hh:mm or hh:mm:ss''))
        | _ \<Rightarrow> Inl (Error ''Invalid date format. Use dd/mm/yyyy''))"

text \<open>The \<open>catch\<close> block rewraps every error.\<close>

definition parseDateTime :: "timezone \<Rightarrow> string option \<Rightarrow> string option \<Rightarrow> exn + int" where
  "parseDateTime tz dateStr timeStr =
     (case parseDateTime_try tz dateStr timeStr of
        Inl e \<Rightarrow> Inl (Error (''Invalid date/time format: '' @ exn_message e))
      | Inr t \<Rightarrow> Inr t)"

text \<open>A host whose local time is UTC.\<close>

definition utc_zone :: timezone where
  "utc_zone = \<lparr>tza_local = (\<lambda>_. 0), tza_utc = (\<lambda>_. 0)\<rparr>"

section \<open>The remote platform and the process state\<close>

text \<open>
  A message of the remote platform: its timestamp identifier \<open>ts\<close> and its \<open>text\<close>
  (which \<open>editMessage\<close> may overwrite with an undefined value).
\<close>

record message =
  ts :: string
  msg_text :: "string option"

text \<open>
  The body of a response (\<open>res.data\<close>), with the fields the program reads. A field
  that the response does not carry is \<open>None\<close>.
\<close>

record data =
  ok :: bool
  error :: "string option"
  user_id :: "string option"
  members :: "string list option"
  messages :: "message list option"

text \<open>The promise of an HTTP call is rejected with an error or resolved with a body.\<close>

datatype reply = Rejected exn | Resolved data

text \<open>
  The calls the program makes: the endpoint and the parameters or body sent. The
  history query carries the pair \<open>(oldest, latest)\<close> when it is a search and the limit.
\<close>

datatype request =
    AuthTest
  | ConversationsMembers string
  | ConversationsJoin string
  | ConversationsHistory string "(int \<times> int) option" nat
  | ChatPostMessage string string
  | ChatScheduleMessage string string int
  | ChatUpdate string string string
  | ChatDelete string string

text \<open>What an observer of the process sees: a network call or a wait (in milliseconds).\<close>

datatype event = Call request | Sleep nat

text \<open>An entry of \<open>messageCache\<close>: \<open>{ message, timestamp }\<close>.\<close>

record cached =
  cached_message :: message
  cached_timestamp :: int

text \<open>
  The state of the process and of its environment. \<open>messageCache\<close> is the module's
  map, keyed by strings. \<open>clock\<close> is what \<open>Date.now()\<close> returns, in milliseconds.
  The remote platform is an arbitrary function \<open>remote\<close>: for the \<open>n\<close>-th call of the
  run and the request sent, the reply and the time (in milliseconds) it takes to
  arrive. \<open>calls\<close> counts the calls made and \<open>trace\<close> records calls and waits in order.
  \<open>zone\<close> is the host's time zone. Operations run one at a time: the interleaving of
  concurrent requests is not modelled, and every call is answered after a finite time.
\<close>

record world =
  messageCache :: "string \<rightharpoonup> cached"
  clock :: int
  remote :: "nat \<Rightarrow> request \<Rightarrow> reply \<times> nat"
  calls :: nat
  trace :: "event list"
  zone :: timezone

definition MESSAGE_SEARCH_TIMEOUT :: nat where "MESSAGE_SEARCH_TIMEOUT = 5000"
definition MAX_RETRIES :: nat where "MAX_RETRIES = 2"
definition CACHE_TTL :: int where "CACHE_TTL = 30000"

text \<open>An awaited HTTP call: the reply arrives after its latency.\<close>

definition axios :: "request \<Rightarrow> world \<Rightarrow> reply \<times> world" where
  "axios req w =
     (let (r, latency) = remote w (calls w) req
      in (r, w\<lparr>clock := clock w + int latency, calls := calls w + 1,
                trace := trace w @ [Call req]\<rparr>))"

text \<open>
  \<open>Promise.race\<close> of an HTTP call against a timer of \<open>limit\<close> milliseconds: \<open>None\<close> when
  the timer fires first, and then the call is abandoned.
\<close>

definition axios_race :: "request \<Rightarrow> nat \<Rightarrow> world \<Rightarrow> reply option \<times> world" where
  "axios_race req limit w =
     (let (r, latency) = remote w (calls w) req;
          w' = w\<lparr>calls := calls w + 1, trace := trace w @ [Call req]\<rparr>
      in if latency < limit then (Some r, w'\<lparr>clock := clock w + int latency\<rparr>)
         else (None, w'\<lparr>clock := clock w + int limit\<rparr>))"

definition sleep :: "nat \<Rightarrow> world \<Rightarrow> world" where
  "sleep ms w = w\<lparr>clock := clock w + int ms, trace := trace w @ [Sleep ms]\<rparr>"

text \<open>Sequencing of steps that may throw: an error skips the rest.\<close>

definition bindE :: "(exn + 'a) \<times> world \<Rightarrow> ('a \<Rightarrow> world \<Rightarrow> (exn + 'b) \<times> world) \<Rightarrow> (exn + 'b) \<times> world" where
  "bindE m f = (case m of (Inl e, w) \<Rightarrow> (Inl e, w) | (Inr a, w) \<Rightarrow> f a w)"

text \<open>A \<open>catch\<close> block that throws a new error built from the one caught.\<close>

definition catchE :: "(exn + 'a) \<times> world \<Rightarrow> (exn \<Rightarrow> exn) \<Rightarrow> (exn + 'a) \<times> world" where
  "catchE m h = (case m of (Inl e, w) \<Rightarrow> (Inl (h e), w) | (Inr a, w) \<Rightarrow> (Inr a, w))"

text \<open>\<open>error.response?.data?.error || error.message\<close>\<close>

definition error_text :: "exn \<Rightarrow> string" where
  "error_text e = str_or (response_error e) (exn_message e)"

text \<open>\<open>if (!res.data.ok) throw new Error(res.data.error || fallback)\<close>\<close>

definition check_ok :: "data \<Rightarrow> string \<Rightarrow> world \<Rightarrow> (exn + data) \<times> world" where
  "check_ok d fallback w =
     (if \<not> ok d then (Inl (Error (str_or (error d) fallback)), w) else (Inr d, w))"

text \<open>An awaited call whose rejection is thrown.\<close>

definition await :: "request \<Rightarrow> world \<Rightarrow> (exn + data) \<times> world" where
  "await req w =
     (case axios req w of (Rejected e, w') \<Rightarrow> (Inl e, w') | (Resolved d, w') \<Rightarrow> (Inr d, w'))"

section \<open>Channel membership\<close>

text \<open>
  \<open>isBotInChannel\<close>: every error (a rejected call, or reading \<open>includes\<close> of a missing
  member list) is caught and gives \<open>false\<close>.
\<close>

definition isBotInChannel :: "string \<Rightarrow> world \<Rightarrow> bool \<times> world" where
  "isBotInChannel channel w =
     (case axios AuthTest w of
        (Rejected e, w1) \<Rightarrow> (False, w1)
      | (Resolved botRes, w1) \<Rightarrow>
          (case axios (ConversationsMembers channel) w1 of
             (Rejected e, w2) \<Rightarrow> (False, w2)
           | (Resolved res, w2) \<Rightarrow>
               (case members res of
                  None \<Rightarrow> (False, w2)
                | Some ms \<Rightarrow>
                    (case user_id botRes of
                       None \<Rightarrow> (False, w2)
                     | Some botId \<Rightarrow> (botId \<in> set ms, w2)))))"

definition joinChannel :: "string \<Rightarrow> world \<Rightarrow> (exn + bool) \<times> world" where
  "joinChannel channel w =
     catchE
       (bindE (await (ConversationsJoin channel) w) (\<lambda>d w1.
        bindE (check_ok d ''Failed to join channel'' w1) (\<lambda>_ w2.
        (Inr True, w2))))
       (\<lambda>e. Error (''Failed to join channel: '' @ error_text e))"

definition valid_channel :: "string \<Rightarrow> bool" where
  "valid_channel channel =
     (case channel of [] \<Rightarrow> False | c # _ \<Rightarrow> c \<in> set [CHR ''C'', CHR ''G'', CHR ''D''])"

definition ensureBotInChannel :: "string \<Rightarrow> world \<Rightarrow> (exn + bool) \<times> world" where
  "ensureBotInChannel channel w =
     (if \<not> valid_channel channel then
        (Inl (Error ''Invalid channel ID format. Must start with C (public), G (private), or D (DM)''), w)
      else
        case isBotInChannel channel w of
          (isInChannel, w1) \<Rightarrow>
            if \<not> isInChannel then bindE (joinChannel channel w1) (\<lambda>_ w2. (Inr True, w2))
            else (Inr True, w1))"

section \<open>The message cache\<close>

text \<open>
  The three ways the program touches \<open>messageCache\<close>. \<open>cache_get\<close> is the check at the
  head of \<open>findMessageByTimestamp\<close> (lines 114 to 120): a hit needs an entry younger
  than \<open>CACHE_TTL\<close>, and an entry that is too old is deleted by the read.
  \<open>cache_set\<close> is \<open>messageCache.set(key, { message, timestamp: Date.now() })\<close> and
  \<open>cache_delete\<close> is \<open>messageCache.delete(key)\<close>.
\<close>

definition cache_get :: "string \<Rightarrow> world \<Rightarrow> message option \<times> world" where
  "cache_get cacheKey w =
     (case messageCache w cacheKey of
        None \<Rightarrow> (None, w)
      | Some c \<Rightarrow>
          if clock w - cached_timestamp c < CACHE_TTL then (Some (cached_message c), w)
          else (None, w\<lparr>messageCache := (messageCache w)(cacheKey := None)\<rparr>))"

definition cache_set :: "string \<Rightarrow> message \<Rightarrow> world \<Rightarrow> world" where
  "cache_set cacheKey m w =
     w\<lparr>messageCache := (messageCache w)
          (cacheKey \<mapsto> \<lparr>cached_message = m, cached_timestamp = clock w\<rparr>)\<rparr>"

definition cache_delete :: "string \<Rightarrow> world \<Rightarrow> world" where
  "cache_delete cacheKey w = w\<lparr>messageCache := (messageCache w)(cacheKey := None)\<rparr>"

text \<open>The key \<open>`${channel}:${x}`\<close>.\<close>

definition cache_key :: "string \<Rightarrow> string \<Rightarrow> string" where
  "cache_key channel x = channel @ '':'' @ x"

section \<open>\<open>findMessageByTimestamp\<close>\<close>

text \<open>
  \<open>Math.abs(parseFloat(m.ts) - timestamp)\<close>, in double arithmetic. The target is an
  integer: the program passes only results of \<open>parseDateTime\<close>, whole seconds below
  \<open>2^53\<close> in magnitude, which are doubles as they stand.
\<close>

definition ts_diff :: "int \<Rightarrow> message \<Rightarrow> jsnum" where
  "ts_diff timestamp m = js_abs (js_sub (parseFloat (ts m)) (Fin (of_int timestamp)))"

text \<open>The callback of \<open>reduce\<close> (lines 152 to 156).\<close>

definition closer :: "int \<Rightarrow> message \<Rightarrow> message \<Rightarrow> message" where
  "closer timestamp prev cur =
     (if js_lt (ts_diff timestamp cur) (ts_diff timestamp prev) then cur else prev)"

text \<open>\<open>reduce\<close> without an initial value, on an array that is not empty.\<close>

definition closestMessage :: "int \<Rightarrow> message \<Rightarrow> message list \<Rightarrow> message" where
  "closestMessage timestamp m ms = foldl (closer timestamp) m ms"

definition history_search :: "string \<Rightarrow> int \<Rightarrow> request" where
  "history_search channel timestamp =
     ConversationsHistory channel (Some (timestamp - 2, timestamp + 2)) 5"

text \<open>
  One pass through the \<open>try\<close> block of the loop, up to the choice of the closest
  message (lines 127 to 156).
\<close>

definition search_attempt :: "string \<Rightarrow> int \<Rightarrow> world \<Rightarrow> (exn + message) \<times> world" where
  "search_attempt channel timestamp w =
     (case axios_race (history_search channel timestamp) MESSAGE_SEARCH_TIMEOUT w of
        (None, w1) \<Rightarrow> (Inl (Error ''Message search timed out''), w1)
      | (Some (Rejected e), w1) \<Rightarrow> (Inl e, w1)
      | (Some (Resolved d), w1) \<Rightarrow>
          (if \<not> ok d then (Inl (Error ''Message not found at the specified time''), w1)
           else case messages d of
                  None \<Rightarrow> (Inl (Error ''Message not found at the specified time''), w1)
                | Some [] \<Rightarrow> (Inl (Error ''Message not found at the specified time''), w1)
                | Some (m # ms) \<Rightarrow> (Inr (closestMessage timestamp m ms), w1)))"

text \<open>The \<open>while\<close> loop (lines 125 to 175).\<close>

function search_loop :: "string \<Rightarrow> int \<Rightarrow> string \<Rightarrow> nat \<Rightarrow> world \<Rightarrow> (exn + message) \<times> world" where
  "search_loop channel timestamp cacheKey retries w =
     (if retries \<le> MAX_RETRIES then
        (case search_attempt channel timestamp w of
           (Inr found, w1) \<Rightarrow> (Inr found, cache_set cacheKey found w1)
         | (Inl e, w1) \<Rightarrow>
             if retries + 1 > MAX_RETRIES then
               (Inl (Error (''Failed to find message: '' @ exn_message e)), w1)
             else search_loop channel timestamp cacheKey (retries + 1)
                    (sleep (500 * (retries + 1)) w1))
      else (Inl (Error ''Max retries reached while searching for message''), w))"
  by pat_completeness auto
termination
  by (relation "measure (\<lambda>(channel, timestamp, cacheKey, retries, w). MAX_RETRIES + 1 - retries)")
     auto

declare search_loop.simps [simp del]

definition findMessageByTimestamp :: "string \<Rightarrow> int \<Rightarrow> world \<Rightarrow> (exn + message) \<times> world" where
  "findMessageByTimestamp channel timestamp w =
     (let cacheKey = cache_key channel (show_int timestamp)
      in case cache_get cacheKey w of
           (Some m, w1) \<Rightarrow> (Inr m, w1)
         | (None, w1) \<Rightarrow> search_loop channel timestamp cacheKey 0 w1)"

section \<open>The five operations\<close>

text \<open>
  What an operation returns: \<open>{ ok: true, response }\<close>, where the response is the
  body of the reply and, for three of the operations, an added line of text.
\<close>

record result =
  response :: data
  human_readable :: "string option"

definition history_list :: "string \<Rightarrow> request" where
  "history_list channel = ConversationsHistory channel None 10"

definition cache_all :: "string \<Rightarrow> message list \<Rightarrow> world \<Rightarrow> world" where
  "cache_all channel ms w = fold (\<lambda>m. cache_set (cache_key channel (ts m)) m) ms w"

definition getMessages :: "string \<Rightarrow> world \<Rightarrow> (exn + result) \<times> world" where
  "getMessages channel w =
     catchE
       (bindE (ensureBotInChannel channel w) (\<lambda>_ w1.
        bindE (await (history_list channel) w1) (\<lambda>d w2.
        bindE (check_ok d ''Failed to get messages'' w2) (\<lambda>_ w3.
        (Inr \<lparr>response = d, human_readable = None\<rparr>,
         case messages d of None \<Rightarrow> w3 | Some ms \<Rightarrow> cache_all channel ms w3)))))
       (\<lambda>e. Error (''Retrieve messages failed: '' @ error_text e))"

definition sendMessage :: "string \<Rightarrow> string option \<Rightarrow> world \<Rightarrow> (exn + result) \<times> world" where
  "sendMessage channel text w =
     catchE
       (bindE (ensureBotInChannel channel w) (\<lambda>_ w1.
        bindE (await (ChatPostMessage channel (str_or text ''Hello from InternshipBot!'')) w1) (\<lambda>d w2.
        bindE (check_ok d ''Failed to send message'' w2) (\<lambda>_ w3.
        (Inr \<lparr>response = d, human_readable = None\<rparr>, w3)))))
       (\<lambda>e. Error (''Send message failed: '' @ error_text e))"

text \<open>A possibly undefined string inside a template literal.\<close>

definition render :: "string option \<Rightarrow> string" where
  "render s = (case s of None \<Rightarrow> ''undefined'' | Some t \<Rightarrow> t)"

definition scheduleMessage :: "string \<Rightarrow> string option \<Rightarrow> string option \<Rightarrow> string option \<Rightarrow> world \<Rightarrow> (exn + result) \<times> world" where
  "scheduleMessage channel text date time w =
     catchE
       (bindE (ensureBotInChannel channel w) (\<lambda>_ w1.
        bindE (parseDateTime (zone w1) date time, w1) (\<lambda>postAt w2.
        bindE (await (ChatScheduleMessage channel
                        (str_or text ''Scheduled message from InternshipBot!'') postAt) w2) (\<lambda>d w3.
        bindE (check_ok d ''Failed to schedule message'' w3) (\<lambda>_ w4.
        (Inr \<lparr>response = d,
              human_readable = Some (''Scheduled for '' @ render date @ '' at '' @ render time)\<rparr>,
         w4))))))
       (\<lambda>e. Error (''Schedule message failed: '' @ exn_message e))"

definition editMessage :: "string \<Rightarrow> string option \<Rightarrow> string option \<Rightarrow> string option \<Rightarrow> world \<Rightarrow> (exn + result) \<times> world" where
  "editMessage channel date time newText w =
     catchE
       (bindE (ensureBotInChannel channel w) (\<lambda>_ w1.
        bindE (parseDateTime (zone w1) date time, w1) (\<lambda>timestamp w2.
        bindE (findMessageByTimestamp channel timestamp w2) (\<lambda>m w3.
        bindE (await (ChatUpdate channel (ts m)
                        (str_or newText ''Updated message from InternshipBot!'')) w3) (\<lambda>d w4.
        bindE (check_ok d ''Failed to edit message'' w4) (\<lambda>_ w5.
        (Inr \<lparr>response = d,
              human_readable = Some (''Edited message from '' @ render date @ '' at '' @ render time)\<rparr>,
         cache_set (cache_key channel (ts m)) (m\<lparr>msg_text := newText\<rparr>) w5)))))))
       (\<lambda>e. Error (''Edit message failed: '' @ exn_message e))"

definition deleteMessage :: "string \<Rightarrow> string option \<Rightarrow> string option \<Rightarrow> world \<Rightarrow> (exn + result) \<times> world" where
  "deleteMessage channel date time w =
     catchE
       (bindE (ensureBotInChannel channel w) (\<lambda>_ w1.
        bindE (parseDateTime (zone w1) date time, w1) (\<lambda>timestamp w2.
        bindE (findMessageByTimestamp channel timestamp w2) (\<lambda>m w3.
        bindE (await (ChatDelete channel (ts m)) w3) (\<lambda>d w4.
        bindE (check_ok d ''Failed to delete message'' w4) (\<lambda>_ w5.
        (Inr \<lparr>response = d,
              human_readable = Some (''Deleted message from '' @ render date @ '' at '' @ render time)\<rparr>,
         cache_delete (cache_key channel (ts m)) w5)))))))
       (\<lambda>e. Error (''Delete message failed: '' @ exn_message e))"

section \<open>The HTTP endpoints of \<open>src/server.js\<close>\<close>

text \<open>
  The fields of \<open>req.body\<close> (or \<open>req.query\<close>) that the handlers read, each possibly
  undefined, and the response sent: its status and either the operation's result or
  \<open>{ ok: false, error }\<close>.
\<close>

record body =
  b_text :: "string option"
  b_channel :: "string option"
  b_date :: "string option"
  b_time :: "string option"
  b_newText :: "string option"

datatype payload = Result result | Failure string

record http_response =
  status :: nat
  payload :: payload

text \<open>The \<open>try\<close> and \<open>catch\<close> around the call of an operation.\<close>

definition respond :: "(exn + result) \<times> world \<Rightarrow> http_response \<times> world" where
  "respond m =
     (case m of
        (Inr r, w) \<Rightarrow> (\<lparr>status = 200, payload = Result r\<rparr>, w)
      | (Inl e, w) \<Rightarrow> (\<lparr>status = 500, payload = Failure (exn_message e)\<rparr>, w))"

definition bad_request :: "string \<Rightarrow> http_response" where
  "bad_request m = \<lparr>status = 400, payload = Failure m\<rparr>"

definition post_send :: "body \<Rightarrow> world \<Rightarrow> http_response \<times> world" where
  "post_send b w =
     (if \<not> str_truthy (b_text b) then (bad_request ''Text is required'', w)
      else respond (sendMessage (str_or (b_channel b) ''#test'') (b_text b) w))"

definition post_schedule :: "body \<Rightarrow> world \<Rightarrow> http_response \<times> world" where
  "post_schedule b w =
     (if \<not> str_truthy (b_text b) \<or> \<not> str_truthy (b_date b) \<or> \<not> str_truthy (b_time b) then
        (bad_request ''Text, date and time are required'', w)
      else respond (scheduleMessage (str_or (b_channel b) ''#test'') (b_text b) (b_date b)
                      (b_time b) w))"

definition get_messages :: "body \<Rightarrow> world \<Rightarrow> http_response \<times> world" where
  "get_messages b w = respond (getMessages (str_or (b_channel b) ''#test'') w)"

definition post_edit :: "body \<Rightarrow> world \<Rightarrow> http_response \<times> world" where
  "post_edit b w =
     (if \<not> str_truthy (b_date b) \<or> \<not> str_truthy (b_time b) \<or> \<not> str_truthy (b_newText b) then
        (bad_request ''Date, time and new text are required'', w)
      else respond (editMessage (str_or (b_channel b) ''#test'') (b_date b) (b_time b)
                      (b_newText b) w))"

definition delete_delete :: "body \<Rightarrow> world \<Rightarrow> http_response \<times> world" where
  "delete_delete b w =
     (if \<not> str_truthy (b_date b) \<or> \<not> str_truthy (b_time b) then
        (bad_request ''Date and time are required'', w)
      else respond (deleteMessage (str_or (b_channel b) ''#test'') (b_date b) (b_time b) w))"

section \<open>Constants used in the statements\<close>

definition invalid_channel_message :: string where
  "invalid_channel_message =
     ''Invalid channel ID format. Must start with C (public), G (private), or D (DM)''"

text \<open>A remote platform that rejects every call at once, and a fresh process.\<close>

definition quiet_remote :: "nat \<Rightarrow> request \<Rightarrow> reply \<times> nat" where
  "quiet_remote n req = (Rejected (Exn ''Network Error'' None), 0)"

definition start_world :: "(nat \<Rightarrow> request \<Rightarrow> reply \<times> nat) \<Rightarrow> world" where
  "start_world r =
     \<lparr>messageCache = Map.empty, clock = 0, remote = r, calls = 0, trace = [],
      zone = utc_zone\<rparr>"

definition no_channel_body :: body where
  "no_channel_body =
     \<lparr>b_text = Some ''hi'', b_channel = None, b_date = Some ''01/01/2024'',
      b_time = Some ''10:00'', b_newText = Some ''new''\<rparr>"

definition hello :: message where
  "hello = \<lparr>ts = ''1704067200.000100'', msg_text = Some ''hello''\<rparr>"

text \<open>
  An attempt of the search fails when the reply does not arrive within the timeout,
  when the call is rejected, or when the body is not \<open>ok\<close> or carries no message; and
  the message of the error that the attempt then throws.
\<close>

definition attempt_fails :: "reply \<times> nat \<Rightarrow> bool" where
  "attempt_fails a =
     (case a of
        (r, latency) \<Rightarrow>
          MESSAGE_SEARCH_TIMEOUT \<le> latency
          \<or> (case r of
                Rejected e \<Rightarrow> True
              | Resolved d \<Rightarrow> \<not> ok d \<or> messages d = None \<or> messages d = Some []))"

definition failure_message :: "reply \<times> nat \<Rightarrow> string" where
  "failure_message a =
     (case a of
        (r, latency) \<Rightarrow>
          if MESSAGE_SEARCH_TIMEOUT \<le> latency then ''Message search timed out''
          else (case r of
                  Rejected e \<Rightarrow> exn_message e
                | Resolved d \<Rightarrow> ''Message not found at the specified time''))"

text \<open>Replies used as examples.\<close>

definition ok_body :: data where
  "ok_body = \<lparr>ok = True, error = None, user_id = None, members = None, messages = None\<rparr>"

definition empty_remote :: "nat \<Rightarrow> request \<Rightarrow> reply \<times> nat" where
  "empty_remote n req = (Resolved (ok_body\<lparr>messages := Some []\<rparr>), 100)"

definition near_100 :: message where
  "near_100 = \<lparr>ts = ''100.0'', msg_text = Some ''first''\<rparr>"

definition near_103 :: message where
  "near_103 = \<lparr>ts = ''103.0'', msg_text = Some ''second''\<rparr>"

text \<open>
  A remote platform on which everything succeeds: the bot \<open>U1\<close> is a member of every
  channel, every history query returns the one message \<open>hello\<close>, and every reply
  takes 50 ms. \<open>after_delete\<close> is the state after a delete against it.
\<close>

definition demo_remote :: "nat \<Rightarrow> request \<Rightarrow> reply \<times> nat" where
  "demo_remote n req =
     (case req of
        AuthTest \<Rightarrow> (Resolved (ok_body\<lparr>user_id := Some ''U1''\<rparr>), 50)
      | ConversationsMembers c \<Rightarrow> (Resolved (ok_body\<lparr>members := Some [''U1'']\<rparr>), 50)
      | ConversationsHistory c window limit \<Rightarrow> (Resolved (ok_body\<lparr>messages := Some [hello]\<rparr>), 50)
      | _ \<Rightarrow> (Resolved ok_body, 50))"

definition after_delete :: world where
  "after_delete =
     snd (deleteMessage ''C1'' (Some ''01/01/2024'') (Some ''00:00'') (start_world demo_remote))"

text \<open>
  A remote platform whose first history query finds nothing and whose later ones
  return the two candidates, and one that returns two candidates at the same exact
  distance from the target 64.
\<close>

definition retry_remote :: "nat \<Rightarrow> request \<Rightarrow> reply \<times> nat" where
  "retry_remote n req =
     (if n = 0 then (Resolved (ok_body\<lparr>messages := Some []\<rparr>), 100)
      else (Resolved (ok_body\<lparr>messages := Some [near_100, near_103]\<rparr>), 100))"

definition below_64 :: message where
  "below_64 = \<lparr>ts = ''63.9'', msg_text = Some ''first''\<rparr>"

definition above_64 :: message where
  "above_64 = \<lparr>ts = ''64.1'', msg_text = Some ''second''\<rparr>"

definition tie_remote :: "nat \<Rightarrow> request \<Rightarrow> reply \<times> nat" where
  "tie_remote n req = (Resolved (ok_body\<lparr>messages := Some [below_64, above_64]\<rparr>), 100)"

section \<open>Distances, as the specification words them\<close>

text \<open>
  A timestamp identifier is a fixed-point string: digits, optionally followed by a
  point and more digits. \<open>ts_value\<close> is the number it writes and \<open>exact_distance\<close> its
  absolute difference from a target, both exact. \<open>double_distance\<close> is that difference
  computed in double arithmetic: the timestamp rounded to a double, the target
  subtracted, and the result rounded again.
\<close>

definition fixed_point :: "string \<Rightarrow> bool" where
  "fixed_point s =
     (takeWhile is_digit s \<noteq> []
      \<and> (case dropWhile is_digit s of
            [] \<Rightarrow> True
          | c # fp \<Rightarrow> c = CHR ''.'' \<and> fp \<noteq> [] \<and> list_all is_digit fp))"

definition ts_value :: "string \<Rightarrow> rat" where
  "ts_value s =
     (let ip = takeWhile is_digit s; fp = drop 1 (dropWhile is_digit s)
      in of_int (digits_val ip) + of_int (digits_val fp) / 10 ^ length fp)"

definition exact_distance :: "int \<Rightarrow> message \<Rightarrow> rat" where
  "exact_distance t m = \<bar>ts_value (ts m) - of_int t\<bar>"

definition double_value :: "rat \<Rightarrow> rat" where
  "double_value x = (case to_double x of Fin r \<Rightarrow> r | _ \<Rightarrow> 0)"

definition double_distance :: "int \<Rightarrow> message \<Rightarrow> rat" where
  "double_distance t m = \<bar>double_value (double_value (ts_value (ts m)) - of_int t)\<bar>"

section \<open>Reading an epoch value back as a local date and time\<close>

text \<open>
  The program never formats a time. To state that a parsed value reads back as the
  date and time supplied, the getters of \<open>new Date(epoch * 1000)\<close> are modelled after
  the ECMAScript definitions: \<open>LocalTime\<close>, \<open>Day\<close>, \<open>YearFromTime\<close> (the largest year
  that starts at or before the day, found by counting down from an upper estimate),
  \<open>MonthFromTime\<close>, \<open>DateFromTime\<close>, \<open>HourFromTime\<close>, \<open>MinFromTime\<close> and
  \<open>SecFromTime\<close>.
\<close>

definition LocalTime :: "timezone \<Rightarrow> int \<Rightarrow> int" where
  "LocalTime tz t = t + tza_utc tz t"

definition Day :: "int \<Rightarrow> int" where
  "Day t = t div msPerDay"

function year_down :: "int \<Rightarrow> int \<Rightarrow> int" where
  "year_down d y = (if DayFromYear y \<le> d then y else year_down d (y - 1))"
  by pat_completeness auto
termination
  apply (relation "measure (\<lambda>(d, y). nat (DayFromYear y - d))")
   apply simp
  apply (simp add: DayFromYear_def)
  done

declare year_down.simps [simp del]

definition YearFromDay :: "int \<Rightarrow> int" where
  "YearFromDay d = year_down d (1970 + (if 0 \<le> d then d div 365 else d div 366))"

definition MonthFromDay :: "int \<Rightarrow> int" where
  "MonthFromDay d =
     (let y = YearFromDay d; k = d - DayFromYear y; leap = is_leap y
      in if k < month_start leap 1 then 0 else if k < month_start leap 2 then 1
         else if k < month_start leap 3 then 2 else if k < month_start leap 4 then 3
         else if k < month_start leap 5 then 4 else if k < month_start leap 6 then 5
         else if k < month_start leap 7 then 6 else if k < month_start leap 8 then 7
         else if k < month_start leap 9 then 8 else if k < month_start leap 10 then 9
         else if k < month_start leap 11 then 10 else 11)"

definition DateFromDay :: "int \<Rightarrow> int" where
  "DateFromDay d =
     (let y = YearFromDay d
      in d - DayFromYear y - month_start (is_leap y) (MonthFromDay d) + 1)"

text \<open>A date and a time of day, as a person writes them.\<close>

record calendar =
  c_day :: int
  c_month :: int
  c_year :: int
  c_hours :: int
  c_minutes :: int
  c_seconds :: int

definition reformat :: "timezone \<Rightarrow> int \<Rightarrow> calendar" where
  "reformat tz epoch =
     (let t = LocalTime tz (epoch * 1000)
      in \<lparr>c_day = DateFromDay (Day t), c_month = MonthFromDay (Day t) + 1,
          c_year = YearFromDay (Day t), c_hours = (t div msPerHour) mod 24,
          c_minutes = (t div msPerMinute) mod 60, c_seconds = (t div msPerSecond) mod 60\<rparr>)"

text \<open>The strings \<open>dd/mm/yyyy\<close>, \<open>hh:mm\<close> and \<open>hh:mm:ss\<close> of a date and a time.\<close>

definition pad2 :: "int \<Rightarrow> string" where
  "pad2 n = [digit_char (n div 10), digit_char (n mod 10)]"

definition pad4 :: "int \<Rightarrow> string" where
  "pad4 n = pad2 (n div 100) @ pad2 (n mod 100)"

definition date_string :: "calendar \<Rightarrow> string" where
  "date_string c = pad2 (c_day c) @ ''/'' @ pad2 (c_month c) @ ''/'' @ pad4 (c_year c)"

definition time_string :: "bool \<Rightarrow> calendar \<Rightarrow> string" where
  "time_string with_seconds c =
     pad2 (c_hours c) @ '':'' @ pad2 (c_minutes c)
     @ (if with_seconds then '':'' @ pad2 (c_seconds c) else [])"

definition days_in_month :: "int \<Rightarrow> int \<Rightarrow> int" where
  "days_in_month y m =
     (if m = 2 then (if is_leap y then 29 else 28)
      else if m \<in> {4, 6, 9, 11} then 30 else 31)"

text \<open>A calendar date with a four-digit year and a time of day on a 24-hour clock.\<close>

definition valid_calendar :: "calendar \<Rightarrow> bool" where
  "valid_calendar c =
     (1 \<le> c_year c \<and> c_year c \<le> 9999 \<and> 1 \<le> c_month c \<and> c_month c \<le> 12
      \<and> 1 \<le> c_day c \<and> c_day c \<le> days_in_month (c_year c) (c_month c)
      \<and> 0 \<le> c_hours c \<and> c_hours c \<le> 23 \<and> 0 \<le> c_minutes c \<and> c_minutes c \<le> 59
      \<and> 0 \<le> c_seconds c \<and> c_seconds c \<le> 59)"

text \<open>The local time value (in milliseconds) that a date and time denote.\<close>

definition local_value :: "calendar \<Rightarrow> int" where
  "local_value c =
     (DayFromYear (c_year c) + month_start (is_leap (c_year c)) (c_month c - 1)
        + c_day c - 1) * msPerDay
     + c_hours c * msPerHour + c_minutes c * msPerMinute + c_seconds c * msPerSecond"

text \<open>
  A host one hour ahead of UTC until 31 March 2024, 01:00 UTC, and two hours ahead
  from then on: the local times from 02:00 to 03:00 of that day do not exist, and are
  read with the offset in force before the change.
\<close>

definition spring_zone :: timezone where
  "spring_zone =
     \<lparr>tza_local = (\<lambda>t. if t < 1711846800000 + 7200000 then 3600000 else 7200000),
      tza_utc = (\<lambda>t. if t < 1711846800000 then 3600000 else 7200000)\<rparr>"

definition new_year_50 :: calendar where
  "new_year_50 = \<lparr>c_day = 1, c_month = 1, c_year = 50, c_hours = 0, c_minutes = 0, c_seconds = 0\<rparr>"

definition spring_gap :: calendar where
  "spring_gap = \<lparr>c_day = 31, c_month = 3, c_year = 2024, c_hours = 2, c_minutes = 30, c_seconds = 0\<rparr>"

definition new_year_eve :: calendar where
  "new_year_eve = \<lparr>c_day = 31, c_month = 12, c_year = 2023, c_hours = 14, c_minutes = 30, c_seconds = 0\<rparr>"

section \<open>Properties\<close>

subsection \<open>Basic facts\<close>

lemma str_or_None: "str_or None d = d"
  by (simp add: str_or_def)

lemma ensure_invalid:
  "\<not> valid_channel channel \<Longrightarrow>
   ensureBotInChannel channel w = (Inl (Error invalid_channel_message), w)"
  by (simp add: ensureBotInChannel_def invalid_channel_message_def)

lemma not_valid_channel_iff:
  "(\<not> valid_channel channel) =
   (channel = [] \<or> hd channel \<notin> {CHR ''C'', CHR ''G'', CHR ''D''})"
  by (cases channel) (auto simp: valid_channel_def)

lemma default_invalid: "\<not> str_truthy c \<Longrightarrow> \<not> valid_channel (str_or c ''#test'')"
  by (auto simp: str_truthy_def str_or_def valid_channel_def split: option.splits)

lemmas op_defs = sendMessage_def scheduleMessage_def getMessages_def editMessage_def
  deleteMessage_def

lemmas flow_defs = bindE_def catchE_def error_text_def Error_def

subsection \<open>Rounding to a double\<close>

lemma pow2_powi: "pow2 e = 2 powi e"
  by (simp add: pow2_def power_int_def inverse_eq_divide power_one_over)

lemma pow2_pos: "0 < pow2 e"
  by (simp add: pow2_powi)

lemma pow2_add: "pow2 (a + b) = pow2 a * pow2 b"
  by (simp add: pow2_powi power_int_add)

lemma pow2_mono: "a \<le> b \<Longrightarrow> pow2 a \<le> pow2 b"
  by (simp add: pow2_powi power_int_increasing)

lemma pow2_less_exp: "pow2 a < pow2 b \<Longrightarrow> a < b"
  using pow2_mono[of b a] by (cases "a < b") auto

lemma pow2_nat: "0 \<le> e \<Longrightarrow> pow2 e = of_int (2 ^ nat e)"
  by (simp add: pow2_def)

lemma floor_log2_le:
  assumes "0 < x"
  shows "pow2 (floor_log2 x) \<le> x"
proof -
  obtain p q where pq: "quotient_of x = (p, q)" by (cases "quotient_of x")
  have q: "0 < q" using pq by (rule quotient_of_denom_pos)
  have x: "x = of_int p / of_int q" using pq by (rule quotient_of_div)
  have p: "0 < p" using assms q unfolding x by (simp add: zero_less_divide_iff)
  define e where "e = bitlen p - bitlen q"
  show ?thesis
  proof (cases "pow2 e \<le> x")
    case True
    then show ?thesis by (simp add: floor_log2_def pq e_def)
  next
    case False
    have bp: "1 \<le> bitlen p" using p by (simp add: bitlen_alt_def)
    have lo: "pow2 (bitlen p - 1) \<le> of_int p"
      using bitlen_bounds[OF p] bp by (simp add: pow2_nat del: of_int_power)
    have "of_int q \<le> (of_int (2 ^ nat (bitlen q)) :: rat)"
      using bitlen_bounds[OF q] by (simp del: of_int_power)
    then have hi: "of_int q \<le> pow2 (bitlen q)"
      using bitlen_nonneg[of q] by (simp add: pow2_nat del: of_int_power)
    have "pow2 (e - 1) = pow2 (bitlen p - 1) / pow2 (bitlen q)"
      using pow2_add[of "e - 1" "bitlen q"] pow2_pos[of "bitlen q"]
      by (simp add: e_def field_simps)
    also have "\<dots> \<le> of_int p / of_int q"
      using lo hi q p pow2_pos[of "bitlen q"] pow2_pos[of "bitlen p - 1"]
      by (intro frac_le) simp_all
    finally have "pow2 (e - 1) \<le> x" by (simp add: x)
    then show ?thesis using False by (simp add: floor_log2_def pq e_def)
  qed
qed

lemma floor_log2_upper:
  assumes "0 < x"
  shows "x < pow2 (floor_log2 x + 1)"
proof -
  obtain p q where pq: "quotient_of x = (p, q)" by (cases "quotient_of x")
  have q: "0 < q" using pq by (rule quotient_of_denom_pos)
  have x: "x = of_int p / of_int q" using pq by (rule quotient_of_div)
  have p: "0 < p" using assms q unfolding x by (simp add: zero_less_divide_iff)
  define e where "e = bitlen p - bitlen q"
  show ?thesis
  proof (cases "pow2 e \<le> x")
    case True
    have bq: "1 \<le> bitlen q" using q by (simp add: bitlen_alt_def)
    have "(of_int p :: rat) < of_int (2 ^ nat (bitlen p))"
      using bitlen_bounds[OF p] by (simp del: of_int_power)
    then have hi: "of_int p < pow2 (bitlen p)"
      using bitlen_nonneg[of p] by (simp add: pow2_nat del: of_int_power)
    have lo: "pow2 (bitlen q - 1) \<le> of_int q"
      using bitlen_bounds[OF q] bq by (simp add: pow2_nat del: of_int_power)
    have "of_int p / of_int q < pow2 (bitlen p) / pow2 (bitlen q - 1)"
      using hi lo q p pow2_pos[of "bitlen q - 1"]
      by (intro frac_less) simp_all
    also have "\<dots> = pow2 (e + 1)"
      using pow2_add[of "e + 1" "bitlen q - 1"] pow2_pos[of "bitlen q - 1"]
      by (simp add: e_def field_simps)
    finally have "x < pow2 (e + 1)" by (simp add: x)
    then show ?thesis using True by (simp add: floor_log2_def pq e_def)
  next
    case False
    then show ?thesis by (simp add: floor_log2_def pq e_def)
  qed
qed

lemma floor_log2_less:
  assumes "0 < x" "x < pow2 b"
  shows "floor_log2 x < b"
  using floor_log2_le[OF assms(1)] assms(2) by (intro pow2_less_exp) simp

lemma round_half_even_error: "\<bar>of_int (round_half_even y) - y\<bar> \<le> 1 / 2"
proof -
  have "of_int \<lfloor>y\<rfloor> \<le> y" "y < of_int \<lfloor>y\<rfloor> + 1" by linarith+
  then show ?thesis
    by (auto simp: round_half_even_def Let_def)
qed

lemma round_half_even_int: "round_half_even (of_int n) = n"
  by (simp add: round_half_even_def)

lemma to_double_int:
  assumes "\<bar>n\<bar> < 9007199254740992"
  shows "to_double (of_int n) = Fin (of_int n)"
proof (cases "n = 0")
  case True
  then show ?thesis by (simp add: to_double_def)
next
  case False
  define e where "e = floor_log2 \<bar>of_int n\<bar>"
  define q where "q = max (e - 52) (- 1074)"
  have "\<bar>of_int n :: rat\<bar> < pow2 53"
    using assms by (simp add: pow2_def flip: of_int_abs)
  then have "e < 53"
    unfolding e_def using False by (intro floor_log2_less) simp_all
  then have q0: "q \<le> 0" by (simp add: q_def)
  have "pow2 q * pow2 (- q) = 1"
    using pow2_add[of q "- q"] by (simp add: pow2_def)
  then have inv: "1 / pow2 q = pow2 (- q)"
    using pow2_pos[of q] by (simp add: field_simps)
  have "of_int n / pow2 q = of_int n * (1 / pow2 q)" by simp
  also have "\<dots> = of_int n * pow2 (- q)" by (simp only: inv)
  also have "\<dots> = of_int (n * 2 ^ nat (- q))"
    using q0 by (simp add: pow2_nat)
  finally have d: "of_int n / pow2 q = of_int (n * 2 ^ nat (- q))" .
  have r: "round_half_even (of_int n / pow2 q) = n * 2 ^ nat (- q)"
    unfolding d by (rule round_half_even_int)
  have undo: "of_int (n * 2 ^ nat (- q)) * pow2 q = (of_int n :: rat)"
    using d pow2_pos[of q] by (simp add: field_simps)
  have nov: "\<not> (971 < q \<or> (q = 971 \<and> \<bar>n * 2 ^ nat (- q)\<bar> = 9007199254740992))"
    using q0 by simp
  show ?thesis
    unfolding to_double_def Let_def e_def[symmetric] q_def[symmetric] r
    using False nov undo q0 by (simp only: if_False) simp
qed

lemma to_double_error:
  assumes "\<bar>x\<bar> < pow2 b" "- 1021 \<le> b" "b \<le> 1000"
  shows "\<exists>r. to_double x = Fin r \<and> \<bar>r - x\<bar> \<le> pow2 (b - 54)"
proof (cases "x = 0")
  case True
  then show ?thesis using pow2_pos[of "b - 54"] by (simp add: to_double_def)
next
  case False
  define e where "e = floor_log2 \<bar>x\<bar>"
  define q where "q = max (e - 52) (- 1074)"
  define n where "n = round_half_even (x / pow2 q)"
  have "e < b"
    unfolding e_def using False assms(1) by (intro floor_log2_less) simp_all
  then have qb: "q \<le> b - 53" using assms(2) by (simp add: q_def)
  then have nov: "\<not> (971 < q \<or> (q = 971 \<and> \<bar>n\<bar> = 9007199254740992))"
    using assms(3) by simp
  have td: "to_double x = Fin (of_int n * pow2 q)"
    unfolding to_double_def Let_def e_def[symmetric] q_def[symmetric] n_def[symmetric]
    using False nov by simp
  have "\<bar>of_int n - x / pow2 q\<bar> \<le> 1 / 2"
    unfolding n_def by (rule round_half_even_error)
  then have "\<bar>of_int n - x / pow2 q\<bar> * pow2 q \<le> 1 / 2 * pow2 q"
    using pow2_pos[of q] by (intro mult_right_mono) simp_all
  moreover have "\<bar>of_int n - x / pow2 q\<bar> * pow2 q = \<bar>of_int n * pow2 q - x\<bar>"
    using pow2_pos[of q] by (simp add: abs_mult_pos[symmetric] field_simps)
  moreover have "1 / 2 * pow2 q = pow2 (q - 1)"
    using pow2_add[of "q - 1" 1] by (simp add: pow2_def[of 1])
  ultimately have "\<bar>of_int n * pow2 q - x\<bar> \<le> pow2 (q - 1)" by simp
  also have "\<dots> \<le> pow2 (b - 54)" using qb by (intro pow2_mono) simp
  finally show ?thesis using td by simp
qed

lemma to_double_not_NaN: "to_double x \<noteq> NaN"
  by (simp add: to_double_def Let_def)

lemma dbl_exact: "\<bar>n\<bar> < 9007199254740992 \<Longrightarrow> dbl n = Some n"
  by (simp add: dbl_def to_double_int)

subsection \<open>Channel ids\<close>

text \<open>
  Claim C7. A channel id that is empty, or whose first character is none of \<open>C\<close>,
  \<open>G\<close> and \<open>D\<close>, makes \<open>ensureBotInChannel\<close> throw the invalid-channel error with the
  state unchanged, so no call has been made; and each of the five operations, which
  start with this check, fails with that error wrapped in its own prefix, again with
  the state (and so the trace of network calls) unchanged.
\<close>

theorem invalid_channel_fails_before_any_call:
  assumes "channel = [] \<or> hd channel \<notin> {CHR ''C'', CHR ''G'', CHR ''D''}"
  shows "ensureBotInChannel channel w = (Inl (Error invalid_channel_message), w)
    \<and> sendMessage channel text w =
           (Inl (Error (''Send message failed: '' @ invalid_channel_message)), w)
    \<and> scheduleMessage channel text date time w =
           (Inl (Error (''Schedule message failed: '' @ invalid_channel_message)), w)
    \<and> getMessages channel w =
           (Inl (Error (''Retrieve messages failed: '' @ invalid_channel_message)), w)
    \<and> editMessage channel date time newText w =
           (Inl (Error (''Edit message failed: '' @ invalid_channel_message)), w)
    \<and> deleteMessage channel date time w =
           (Inl (Error (''Delete message failed: '' @ invalid_channel_message)), w)"
proof -
  from assms have nv: "\<not> valid_channel channel"
    by (simp add: not_valid_channel_iff)
  show ?thesis
    by (simp add: ensure_invalid[OF nv] op_defs flow_defs str_or_None)
qed

theorem invalid_channel_fails_before_any_call_witness:
  "ensureBotInChannel ''X042'' (start_world quiet_remote)
     = (Inl (Error invalid_channel_message), start_world quiet_remote)
   \<and> trace (snd (deleteMessage ''X042'' (Some ''01/01/2024'') (Some ''10:00'')
                   (start_world quiet_remote))) = []"
  using invalid_channel_fails_before_any_call[where channel = "''X042''"
      and w = "start_world quiet_remote" and date = "Some ''01/01/2024''"
      and time = "Some ''10:00''"]
  by (simp add: start_world_def)

text \<open>
  Claim C9. When the request names no channel, the handler passes the literal
  \<open>#test\<close>. For each endpoint whose required fields are present, the operation is
  called, fails the channel check and the response is a 500 carrying the
  invalid-channel message; whatever the fields, no endpoint answers 200 and the state
  is unchanged, so no network call is made.
\<close>

theorem default_channel_never_succeeds:
  assumes "\<not> str_truthy (b_channel b)"
  shows "(str_truthy (b_text b) \<longrightarrow>
            post_send b w =
              (\<lparr>status = 500,
                payload = Failure (''Send message failed: '' @ invalid_channel_message)\<rparr>, w))
    \<and> (str_truthy (b_text b) \<and> str_truthy (b_date b) \<and> str_truthy (b_time b) \<longrightarrow>
            post_schedule b w =
              (\<lparr>status = 500,
                payload = Failure (''Schedule message failed: '' @ invalid_channel_message)\<rparr>, w))
    \<and> get_messages b w =
         (\<lparr>status = 500,
           payload = Failure (''Retrieve messages failed: '' @ invalid_channel_message)\<rparr>, w)
    \<and> (str_truthy (b_date b) \<and> str_truthy (b_time b) \<and> str_truthy (b_newText b) \<longrightarrow>
            post_edit b w =
              (\<lparr>status = 500,
                payload = Failure (''Edit message failed: '' @ invalid_channel_message)\<rparr>, w))
    \<and> (str_truthy (b_date b) \<and> str_truthy (b_time b) \<longrightarrow>
            delete_delete b w =
              (\<lparr>status = 500,
                payload = Failure (''Delete message failed: '' @ invalid_channel_message)\<rparr>, w))
    \<and> status (fst (post_send b w)) \<noteq> 200 \<and> snd (post_send b w) = w
    \<and> status (fst (post_schedule b w)) \<noteq> 200 \<and> snd (post_schedule b w) = w
    \<and> status (fst (post_edit b w)) \<noteq> 200 \<and> snd (post_edit b w) = w
    \<and> status (fst (delete_delete b w)) \<noteq> 200 \<and> snd (delete_delete b w) = w"
proof -
  have nv: "\<not> valid_channel (str_or (b_channel b) ''#test'')"
    using assms by (rule default_invalid)
  show ?thesis
    by (simp add: post_send_def post_schedule_def get_messages_def post_edit_def
        delete_delete_def respond_def bad_request_def ensure_invalid[OF nv] op_defs
        flow_defs str_or_None)
qed

theorem default_channel_never_succeeds_witness:
  "post_send no_channel_body (start_world quiet_remote) =
     (\<lparr>status = 500,
       payload = Failure (''Send message failed: '' @ invalid_channel_message)\<rparr>,
      start_world quiet_remote)
   \<and> post_edit no_channel_body (start_world quiet_remote) =
     (\<lparr>status = 500,
       payload = Failure (''Edit message failed: '' @ invalid_channel_message)\<rparr>,
      start_world quiet_remote)"
  using default_channel_never_succeeds[of no_channel_body "start_world quiet_remote"]
  by (simp add: no_channel_body_def str_truthy_def)

subsection \<open>The cache\<close>

text \<open>
  Claim C5. After an entry is stored at time \<open>clock w\<close> (in milliseconds), a read
  of the same key at a time \<open>t\<close> less than 30 seconds later returns
  the stored message and leaves the state as it is. A read at 30 seconds or more
  returns nothing and leaves no entry under the key, and a further read of the key,
  at any time \<open>t'\<close>, returns nothing as well.
\<close>

theorem cache_bounded_staleness:
  "(t - clock w < 30000 \<longrightarrow>
        cache_get k ((cache_set k m w)\<lparr>clock := t\<rparr>)
          = (Some m, (cache_set k m w)\<lparr>clock := t\<rparr>))
   \<and> (30000 \<le> t - clock w \<longrightarrow>
        fst (cache_get k ((cache_set k m w)\<lparr>clock := t\<rparr>)) = None
        \<and> messageCache (snd (cache_get k ((cache_set k m w)\<lparr>clock := t\<rparr>))) k = None
        \<and> fst (cache_get k
                 ((snd (cache_get k ((cache_set k m w)\<lparr>clock := t\<rparr>)))\<lparr>clock := t'\<rparr>)) = None)"
  by (simp add: cache_get_def cache_set_def CACHE_TTL_def)

theorem cache_bounded_staleness_witness:
  "fst (cache_get ''C1:100'' ((cache_set ''C1:100'' hello (start_world quiet_remote))
          \<lparr>clock := 29999\<rparr>)) = Some hello
   \<and> fst (cache_get ''C1:100'' ((cache_set ''C1:100'' hello (start_world quiet_remote))
          \<lparr>clock := 30000\<rparr>)) = None
   \<and> fst (cache_get ''C1:100''
            ((snd (cache_get ''C1:100''
                    ((cache_set ''C1:100'' hello (start_world quiet_remote))
                       \<lparr>clock := 30000\<rparr>)))\<lparr>clock := 30001\<rparr>)) = None"
  using cache_bounded_staleness[of 29999 "start_world quiet_remote" "''C1:100''" hello]
    cache_bounded_staleness[of 30000 "start_world quiet_remote" "''C1:100''" hello 30001]
  by (simp add: start_world_def)

subsection \<open>Dates\<close>

text \<open>
  Claim C2, evaluated on the code. For the date \<open>31/02/2024\<close> \<open>parseDateTime\<close> does
  not fail: \<open>Date\<close> carries the surplus days into March, so on any host the result is
  the one for \<open>02/03/2024\<close>, and on a host in UTC it is the epoch value 1709389800
  (2 March 2024, 14:30).
\<close>

theorem parseDateTime_accepts_31_february:
  "parseDateTime utc_zone (Some ''31/02/2024'') (Some ''14:30'') = Inr 1709389800
   \<and> parseDateTime tz (Some ''31/02/2024'') (Some ''14:30'')
       = parseDateTime tz (Some ''02/03/2024'') (Some ''14:30'')"
  by code_simp

subsection \<open>Reading padded decimal fields\<close>

lemma of_char_digit_char: "0 \<le> n \<Longrightarrow> n < 10 \<Longrightarrow> (of_char (digit_char n) :: int) = 48 + n"
  by (simp add: digit_char_def take_bit_eq_mod)

lemma digit_char_props:
  assumes "0 \<le> n" "n < 10"
  shows "is_digit (digit_char n)" "digit_val (digit_char n) = n" "\<not> is_ws (digit_char n)"
    "digit_char n \<noteq> CHR ''/''" "digit_char n \<noteq> CHR '':''" "digit_char n \<noteq> CHR ''+''"
    "digit_char n \<noteq> CHR ''-''" "digit_char n \<noteq> CHR ''I''" "radix_of (digit_char n) = None"
proof -
  note c = of_char_digit_char[OF assms]
  show "is_digit (digit_char n)" using assms by (simp add: is_digit_def c)
  show "digit_val (digit_char n) = n" by (simp add: digit_val_def c)
  show "\<not> is_ws (digit_char n)" using assms by (auto simp: is_ws_def c)
  have ne: "\<And>k. (of_char k :: int) \<noteq> 48 + n \<Longrightarrow> digit_char n \<noteq> k"
    using c by auto
  show "digit_char n \<noteq> CHR ''/''" using assms by (intro ne) simp
  show "digit_char n \<noteq> CHR '':''" using assms by (intro ne) simp
  show "digit_char n \<noteq> CHR ''+''" using assms by (intro ne) simp
  show "digit_char n \<noteq> CHR ''-''" using assms by (intro ne) simp
  show "digit_char n \<noteq> CHR ''I''" using assms by (intro ne) simp
  show "radix_of (digit_char n) = None"
    unfolding radix_of_def using assms
    by (auto dest!: arg_cong[where f = "of_char :: char \<Rightarrow> int"] simp: c)
qed


lemma is_digit_props:
  assumes "is_digit c"
  shows "\<not> is_ws c" "c \<noteq> CHR ''+''" "c \<noteq> CHR ''-''" "c \<noteq> CHR ''I''" "radix_of c = None"
proof -
  have r: "48 \<le> (of_char c :: int)" "(of_char c :: int) \<le> 57"
    using assms by (simp_all add: is_digit_def)
  show "\<not> is_ws c" using r by (auto simp: is_ws_def)
  show "c \<noteq> CHR ''+''" using r by auto
  show "c \<noteq> CHR ''-''" using r by auto
  show "c \<noteq> CHR ''I''" using r by auto
  show "radix_of c = None" using r by (auto simp: radix_of_def)
qed

lemma trim_digits:
  assumes "ds \<noteq> []" "\<forall>c\<in>set ds. is_digit c"
  shows "trim ds = ds"
proof -
  have "\<not> is_ws (hd ds)" using assms is_digit_props(1) by auto
  then have a: "dropWhile is_ws ds = ds" using assms(1) by (cases ds) auto
  have "\<not> is_ws (hd (rev ds))" using assms is_digit_props(1) by (simp add: hd_rev)
  then have b: "dropWhile is_ws (rev ds) = rev ds" using assms(1) by (cases "rev ds") auto
  show ?thesis by (simp add: trim_def a b)
qed

lemma scan_decimal_digits:
  assumes "ds \<noteq> []" "\<forall>c\<in>set ds. is_digit c"
  shows "scan_decimal ds = Some (to_double (of_int (digits_val ds)), [])"
proof -
  obtain c r where ds: "ds = c # r" using assms(1) by (cases ds) auto
  have c: "is_digit c" using assms(2) ds by simp
  have sg: "scan_sign ds = (1, ds)"
    using is_digit_props(2,3)[OF c] by (simp add: ds)
  have np: "\<not> prefix ''Infinity'' ds"
    using is_digit_props(4)[OF c] by (simp add: ds)
  have tw: "takeWhile is_digit ds = ds" "dropWhile is_digit ds = []"
    using assms(2) by simp_all
  show ?thesis
    using assms(1)
    by (simp add: scan_decimal_def sg np tw scan_exponent_def pow10_def digits_val_def)
qed

lemma Number_digits:
  assumes "ds \<noteq> []" "\<forall>c\<in>set ds. is_digit c"
  shows "Number ds = to_double (of_int (digits_val ds))"
proof -
  have d: "decimal_Number ds = to_double (of_int (digits_val ds))"
    by (simp add: decimal_Number_def scan_decimal_digits[OF assms])
  have t: "trim ds = ds" by (rule trim_digits[OF assms])
  have "Number ds = decimal_Number ds"
  proof (cases ds)
    case Nil
    then show ?thesis using assms by simp
  next
    case (Cons z r)
    show ?thesis
    proof (cases r)
      case Nil
      show ?thesis
        unfolding Number_def t Let_def by (simp add: Cons Nil)
    next
      case (Cons p q)
      have "is_digit p" using assms(2) \<open>ds = z # r\<close> Cons by simp
      then have "radix_of p = None" by (rule is_digit_props(5))
      then show ?thesis
        unfolding Number_def t Let_def by (simp add: \<open>ds = z # r\<close> Cons)
    qed
  qed
  then show ?thesis by (simp add: d)
qed

lemma pad2_digits:
  assumes "0 \<le> n" "n < 100"
  shows "\<forall>c\<in>set (pad2 n). is_digit c" "digits_val (pad2 n) = n"
proof -
  have a: "0 \<le> n div 10" "n div 10 < 10" "0 \<le> n mod 10" "n mod 10 < 10"
    using assms by simp_all
  show "\<forall>c\<in>set (pad2 n). is_digit c"
    by (simp add: pad2_def digit_char_props(1) a)
  show "digits_val (pad2 n) = n"
    by (simp add: pad2_def digits_val_def digit_char_props(2) a)
qed

lemma Number_pad2:
  assumes "0 \<le> n" "n < 100"
  shows "Number (pad2 n) = Fin (of_int n)"
proof -
  have "Number (pad2 n) = to_double (of_int (digits_val (pad2 n)))"
    using pad2_digits(1)[OF assms] by (intro Number_digits) (simp_all add: pad2_def)
  then show ?thesis using assms by (simp add: pad2_digits(2)[OF assms] to_double_int)
qed

lemma digits_val_append2:
  "digits_val (xs @ [a, b]) = 100 * digits_val xs + 10 * digit_val a + digit_val b"
  by (simp add: digits_val_def)

lemma Number_pad4:
  assumes "0 \<le> n" "n < 10000"
  shows "Number (pad4 n) = Fin (of_int n)"
proof -
  have hi: "0 \<le> n div 100" "n div 100 < 100" using assms by simp_all
  have lo: "0 \<le> n mod 100" "n mod 100 < 100" by simp_all
  have "Number (pad4 n) = to_double (of_int (digits_val (pad4 n)))"
    using pad2_digits(1)[OF hi] pad2_digits(1)[OF lo]
    by (intro Number_digits) (auto simp: pad4_def pad2_def)
  moreover have "digits_val (pad4 n) = 100 * digits_val (pad2 (n div 100)) + digits_val (pad2 (n mod 100))"
    unfolding pad4_def
    by (subst (2 3) pad2_def) (simp add: digits_val_append2 digits_val_def)
  ultimately show ?thesis
    using assms by (simp add: pad2_digits(2)[OF hi] pad2_digits(2)[OF lo] to_double_int)
qed

lemma split_no_sep: "c \<notin> set s \<Longrightarrow> split c s = [s]"
  by (induction s) auto

lemma split_sep: "c \<notin> set s \<Longrightarrow> split c (s @ c # r) = s # split c r"
  by (induction s) (auto split: list.splits)

lemma digits_no_sep:
  assumes "\<forall>c\<in>set ds. is_digit c"
  shows "CHR ''/'' \<notin> set ds" "CHR '':'' \<notin> set ds"
proof -
  have "\<not> is_digit (CHR ''/'')" "\<not> is_digit (CHR '':'')"
    by (simp_all add: is_digit_def)
  then show "CHR ''/'' \<notin> set ds" "CHR '':'' \<notin> set ds"
    using assms by blast+
qed

lemma pad4_digits:
  assumes "0 \<le> n" "n < 10000"
  shows "\<forall>c\<in>set (pad4 n). is_digit c"
proof -
  have hi: "0 \<le> n div 100" "n div 100 < 100" using assms by simp_all
  have lo: "0 \<le> n mod 100" "n mod 100 < 100" by simp_all
  show ?thesis
    using pad2_digits(1)[OF hi] pad2_digits(1)[OF lo] by (auto simp: pad4_def)
qed

lemma date_parts:
  assumes "0 \<le> d" "d < 100" "0 \<le> m" "m < 100" "0 \<le> y" "y < 10000"
  shows "map Number (split (CHR ''/'') (pad2 d @ ''/'' @ pad2 m @ ''/'' @ pad4 y))
           = [Fin (of_int d), Fin (of_int m), Fin (of_int y)]"
proof -
  have "split (CHR ''/'') (pad2 d @ ''/'' @ pad2 m @ ''/'' @ pad4 y) = [pad2 d, pad2 m, pad4 y]"
    using digits_no_sep(1)[OF pad2_digits(1)[OF assms(1,2)]]
      digits_no_sep(1)[OF pad2_digits(1)[OF assms(3,4)]]
      digits_no_sep(1)[OF pad4_digits[OF assms(5,6)]]
    by (simp add: split_sep split_no_sep)
  then show ?thesis
    by (simp add: Number_pad2 Number_pad4 assms)
qed

lemma time_parts:
  assumes "0 \<le> h" "h < 100" "0 \<le> m" "m < 100" "0 \<le> s" "s < 100"
  shows "map Number (split (CHR '':'') (pad2 h @ '':'' @ pad2 m))
           = [Fin (of_int h), Fin (of_int m)]"
    and "map Number (split (CHR '':'') (pad2 h @ '':'' @ pad2 m @ '':'' @ pad2 s))
           = [Fin (of_int h), Fin (of_int m), Fin (of_int s)]"
proof -
  note n = digits_no_sep(2)[OF pad2_digits(1)[OF assms(1,2)]]
      digits_no_sep(2)[OF pad2_digits(1)[OF assms(3,4)]]
      digits_no_sep(2)[OF pad2_digits(1)[OF assms(5,6)]]
  have "split (CHR '':'') (pad2 h @ '':'' @ pad2 m) = [pad2 h, pad2 m]"
    using n by (simp add: split_sep split_no_sep)
  then show "map Number (split (CHR '':'') (pad2 h @ '':'' @ pad2 m))
           = [Fin (of_int h), Fin (of_int m)]"
    by (simp add: Number_pad2 assms)
  have "split (CHR '':'') (pad2 h @ '':'' @ pad2 m @ '':'' @ pad2 s) = [pad2 h, pad2 m, pad2 s]"
    using n by (simp add: split_sep split_no_sep)
  then show "map Number (split (CHR '':'') (pad2 h @ '':'' @ pad2 m @ '':'' @ pad2 s))
           = [Fin (of_int h), Fin (of_int m), Fin (of_int s)]"
    by (simp add: Number_pad2 assms)
qed

subsection \<open>Searching for a message\<close>

lemma cache_get_frame:
  "remote (snd (cache_get k w)) = remote w"
  "calls (snd (cache_get k w)) = calls w"
  "trace (snd (cache_get k w)) = trace w"
  "clock (snd (cache_get k w)) = clock w"
  "zone (snd (cache_get k w)) = zone w"
  by (simp_all add: cache_get_def split: option.splits)

lemma sleep_frame:
  "remote (sleep n w) = remote w"
  "calls (sleep n w) = calls w"
  "trace (sleep n w) = trace w @ [Sleep n]"
  "messageCache (sleep n w) = messageCache w"
  by (simp_all add: sleep_def)

lemma search_attempt_fails:
  assumes "attempt_fails (remote w (calls w) (history_search channel timestamp))"
  shows "\<exists>e w1. search_attempt channel timestamp w = (Inl e, w1)
           \<and> exn_message e = failure_message (remote w (calls w) (history_search channel timestamp))
           \<and> remote w1 = remote w \<and> calls w1 = calls w + 1
           \<and> trace w1 = trace w @ [Call (history_search channel timestamp)]"
proof (cases "remote w (calls w) (history_search channel timestamp)")
  case (Pair r latency)
  show ?thesis
  proof (cases "MESSAGE_SEARCH_TIMEOUT \<le> latency")
    case True
    then show ?thesis
      using Pair by (simp add: search_attempt_def axios_race_def failure_message_def Error_def)
  next
    case False
    then show ?thesis
      using Pair assms
      by (cases r)
         (auto simp: search_attempt_def axios_race_def failure_message_def attempt_fails_def
            Error_def split: option.splits list.splits)
  qed
qed

text \<open>
  Claim C3. When the lookup misses the cache and each of the next three history
  queries fails (no candidate, a timeout or a remote error), \<open>findMessageByTimestamp\<close>
  makes exactly \<open>1 + MAX_RETRIES\<close> = 3 calls, waits 500 ms after the first failure and
  1000 ms after the second, and then throws the error whose message is
  \<open>Failed to find message: \<close> followed by the message of the last failure.
\<close>

theorem search_exhausts_retries:
  assumes miss: "fst (cache_get (cache_key channel (show_int timestamp)) w) = None"
    and fails: "\<forall>i<3. attempt_fails (remote w (calls w + i) (history_search channel timestamp))"
  shows "fst (findMessageByTimestamp channel timestamp w) =
           Inl (Error (''Failed to find message: '' @
                  failure_message (remote w (calls w + 2) (history_search channel timestamp))))
       \<and> trace (snd (findMessageByTimestamp channel timestamp w)) =
           trace w @ [Call (history_search channel timestamp), Sleep 500,
                      Call (history_search channel timestamp), Sleep 1000,
                      Call (history_search channel timestamp)]
       \<and> calls (snd (findMessageByTimestamp channel timestamp w)) = calls w + (1 + MAX_RETRIES)"
proof -
  let ?key = "cache_key channel (show_int timestamp)"
  let ?req = "history_search channel timestamp"
  define w0 where "w0 = snd (cache_get ?key w)"
  have cg: "cache_get ?key w = (None, w0)"
    using miss by (simp add: w0_def prod_eq_iff)
  have f0: "remote w0 = remote w" "calls w0 = calls w" "trace w0 = trace w"
    by (simp_all add: w0_def cache_get_frame)
  have "attempt_fails (remote w0 (calls w0) ?req)"
    using fails[rule_format, of 0] by (simp add: f0)
  from search_attempt_fails[OF this] obtain e1 w1 where
    a1: "search_attempt channel timestamp w0 = (Inl e1, w1)"
    and f1: "remote w1 = remote w" "calls w1 = calls w + 1" "trace w1 = trace w @ [Call ?req]"
    by (auto simp: f0)
  define s1 where "s1 = sleep 500 w1"
  have g1: "remote s1 = remote w" "calls s1 = calls w + 1"
    "trace s1 = trace w @ [Call ?req, Sleep 500]"
    by (simp_all add: s1_def sleep_frame f1)
  have "attempt_fails (remote s1 (calls s1) ?req)"
    using fails[rule_format, of 1] by (simp add: g1)
  from search_attempt_fails[OF this] obtain e2 w2 where
    a2: "search_attempt channel timestamp s1 = (Inl e2, w2)"
    and f2: "remote w2 = remote w" "calls w2 = calls w + 2"
      "trace w2 = trace w @ [Call ?req, Sleep 500, Call ?req]"
    by (auto simp: g1)
  define s2 where "s2 = sleep 1000 w2"
  have g2: "remote s2 = remote w" "calls s2 = calls w + 2"
    "trace s2 = trace w @ [Call ?req, Sleep 500, Call ?req, Sleep 1000]"
    by (simp_all add: s2_def sleep_frame f2)
  have "attempt_fails (remote s2 (calls s2) ?req)"
    using fails[rule_format, of 2] by (simp add: g2)
  from search_attempt_fails[OF this] obtain e3 w3 where
    a3: "search_attempt channel timestamp s2 = (Inl e3, w3)"
    and m3: "exn_message e3 = failure_message (remote w (calls w + 2) ?req)"
    and f3: "calls w3 = calls w + 3"
      "trace w3 = trace w @ [Call ?req, Sleep 500, Call ?req, Sleep 1000, Call ?req]"
    by (auto simp: g2)
  have l3: "search_loop channel timestamp ?key (Suc (Suc 0)) s2
              = (Inl (Error (''Failed to find message: '' @ exn_message e3)), w3)"
    by (subst search_loop.simps) (simp add: a3 MAX_RETRIES_def)
  have l2: "search_loop channel timestamp ?key (Suc 0) s1
              = (Inl (Error (''Failed to find message: '' @ exn_message e3)), w3)"
    by (subst search_loop.simps) (simp add: a2 MAX_RETRIES_def l3[unfolded s2_def])
  have l1: "search_loop channel timestamp ?key 0 w0
              = (Inl (Error (''Failed to find message: '' @ exn_message e3)), w3)"
    by (subst search_loop.simps) (simp add: a1 MAX_RETRIES_def l2[unfolded s1_def])
  have "findMessageByTimestamp channel timestamp w
          = (Inl (Error (''Failed to find message: '' @ exn_message e3)), w3)"
    by (simp add: findMessageByTimestamp_def cg l1)
  then show ?thesis
    by (simp add: m3 f3 MAX_RETRIES_def)
qed

theorem search_exhausts_retries_witness:
  "fst (findMessageByTimestamp ''C1'' 101 (start_world empty_remote)) =
     Inl (Error ''Failed to find message: Message not found at the specified time'')
   \<and> trace (snd (findMessageByTimestamp ''C1'' 101 (start_world empty_remote))) =
       [Call (ConversationsHistory ''C1'' (Some (99, 103)) 5), Sleep 500,
        Call (ConversationsHistory ''C1'' (Some (99, 103)) 5), Sleep 1000,
        Call (ConversationsHistory ''C1'' (Some (99, 103)) 5)]"
  using search_exhausts_retries[of "''C1''" 101 "start_world empty_remote"]
  by (simp add: start_world_def cache_get_def attempt_fails_def failure_message_def
      empty_remote_def ok_body_def MESSAGE_SEARCH_TIMEOUT_def history_search_def)

lemma js_lt_le_trans:
  "x \<noteq> NaN \<Longrightarrow> a \<noteq> NaN \<Longrightarrow> p \<noteq> NaN \<Longrightarrow> js_lt x a \<Longrightarrow> \<not> js_lt p a \<Longrightarrow> js_lt x p"
  by (cases x; cases a; cases p) auto

lemma js_lt_asym: "js_lt x p \<Longrightarrow> \<not> js_lt p x"
  by (cases x; cases p) auto

lemma ts_diff_NaN: "parseFloat (ts m) \<noteq> NaN \<Longrightarrow> ts_diff t m \<noteq> NaN"
proof (cases "parseFloat (ts m)")
  case (Fin x)
  then show ?thesis
    using to_double_not_NaN[of "x - of_int t"]
    by (cases "to_double (x - of_int t)") (simp_all add: ts_diff_def)
qed (simp_all add: ts_diff_def)

lemma closest_fold:
  assumes "\<forall>m\<in>set (pre @ xs). ts_diff t m \<noteq> NaN"
    and "i < length pre" and "a = pre ! i"
    and "\<forall>j<length pre. \<not> js_lt (ts_diff t (pre ! j)) (ts_diff t a)"
    and "\<forall>j<i. js_lt (ts_diff t a) (ts_diff t (pre ! j))"
  shows "\<exists>k<length (pre @ xs). foldl (closer t) a xs = (pre @ xs) ! k
           \<and> (\<forall>j<length (pre @ xs).
                 \<not> js_lt (ts_diff t ((pre @ xs) ! j)) (ts_diff t ((pre @ xs) ! k)))
           \<and> (\<forall>j<k. js_lt (ts_diff t ((pre @ xs) ! k)) (ts_diff t ((pre @ xs) ! j)))"
  using assms
proof (induction xs arbitrary: pre a i)
  case Nil
  then show ?case by auto
next
  case (Cons x xs)
  have nn: "\<And>m. m \<in> set pre \<or> m = x \<Longrightarrow> ts_diff t m \<noteq> NaN"
    using Cons.prems(1) by auto
  have ann: "ts_diff t a \<noteq> NaN"
    using Cons.prems(2,3) nn by auto
  have all': "\<forall>m\<in>set ((pre @ [x]) @ xs). ts_diff t m \<noteq> NaN"
    using Cons.prems(1) by simp
  show ?case
  proof (cases "js_lt (ts_diff t x) (ts_diff t a)")
    case True
    have c: "closer t a x = x" using True by (simp add: closer_def)
    have lt: "\<And>j. j < length pre \<Longrightarrow> js_lt (ts_diff t x) (ts_diff t (pre ! j))"
    proof -
      fix j assume j: "j < length pre"
      then have "\<not> js_lt (ts_diff t (pre ! j)) (ts_diff t a)"
        using Cons.prems(4) by simp
      moreover have "ts_diff t (pre ! j) \<noteq> NaN" using j nn by auto
      ultimately show "js_lt (ts_diff t x) (ts_diff t (pre ! j))"
        using js_lt_le_trans[OF _ ann _ True] nn by blast
    qed
    have "\<exists>k<length ((pre @ [x]) @ xs). foldl (closer t) x xs = ((pre @ [x]) @ xs) ! k
           \<and> (\<forall>j<length ((pre @ [x]) @ xs).
                 \<not> js_lt (ts_diff t (((pre @ [x]) @ xs) ! j)) (ts_diff t (((pre @ [x]) @ xs) ! k)))
           \<and> (\<forall>j<k. js_lt (ts_diff t (((pre @ [x]) @ xs) ! k)) (ts_diff t (((pre @ [x]) @ xs) ! j)))"
    proof (rule Cons.IH[OF all', of "length pre"])
      show "length pre < length (pre @ [x])" by simp
      show "x = (pre @ [x]) ! length pre" by simp
      show "\<forall>j<length (pre @ [x]). \<not> js_lt (ts_diff t ((pre @ [x]) ! j)) (ts_diff t x)"
        using lt js_lt_asym by (auto simp: nth_append less_Suc_eq)
      show "\<forall>j<length pre. js_lt (ts_diff t x) (ts_diff t ((pre @ [x]) ! j))"
        using lt by (simp add: nth_append)
    qed
    then show ?thesis by (simp add: c)
  next
    case False
    have c: "closer t a x = a" using False by (simp add: closer_def)
    have "\<exists>k<length ((pre @ [x]) @ xs). foldl (closer t) a xs = ((pre @ [x]) @ xs) ! k
           \<and> (\<forall>j<length ((pre @ [x]) @ xs).
                 \<not> js_lt (ts_diff t (((pre @ [x]) @ xs) ! j)) (ts_diff t (((pre @ [x]) @ xs) ! k)))
           \<and> (\<forall>j<k. js_lt (ts_diff t (((pre @ [x]) @ xs) ! k)) (ts_diff t (((pre @ [x]) @ xs) ! j)))"
    proof (rule Cons.IH[OF all', of i])
      show "i < length (pre @ [x])" using Cons.prems(2) by simp
      show "a = (pre @ [x]) ! i" using Cons.prems(2,3) by (simp add: nth_append)
      show "\<forall>j<length (pre @ [x]). \<not> js_lt (ts_diff t ((pre @ [x]) ! j)) (ts_diff t a)"
        using Cons.prems(4) False by (auto simp: nth_append less_Suc_eq)
      show "\<forall>j<i. js_lt (ts_diff t a) (ts_diff t ((pre @ [x]) ! j))"
        using Cons.prems(2,5) by (simp add: nth_append)
    qed
    then show ?thesis by (simp add: c)
  qed
qed

lemma closestMessage_first_min:
  assumes "\<forall>m\<in>set (m0 # ms). parseFloat (ts m) \<noteq> NaN"
  shows "\<exists>k<length (m0 # ms). closestMessage t m0 ms = (m0 # ms) ! k
           \<and> (\<forall>j<length (m0 # ms).
                 \<not> js_lt (ts_diff t ((m0 # ms) ! j)) (ts_diff t ((m0 # ms) ! k)))
           \<and> (\<forall>j<k. js_lt (ts_diff t ((m0 # ms) ! k)) (ts_diff t ((m0 # ms) ! j)))"
proof -
  have nn: "\<forall>m\<in>set ([m0] @ ms). ts_diff t m \<noteq> NaN"
    using assms ts_diff_NaN by auto
  have irr: "\<not> js_lt (ts_diff t m0) (ts_diff t m0)"
    using js_lt_asym by blast
  from closest_fold[OF nn, of 0 m0] irr show ?thesis
    by (simp add: closestMessage_def)
qed

lemma digits_val_nonneg: "\<forall>c\<in>set ds. is_digit c \<Longrightarrow> 0 \<le> digits_val ds"
proof -
  have "\<forall>c\<in>set ds. is_digit c \<Longrightarrow> 0 \<le> a \<Longrightarrow> 0 \<le> foldl (\<lambda>a c. 10 * a + digit_val c) a ds" for a
    by (induction ds arbitrary: a) (auto simp: is_digit_def digit_val_def)
  then show "\<forall>c\<in>set ds. is_digit c \<Longrightarrow> 0 \<le> digits_val ds"
    by (simp add: digits_val_def)
qed

lemma ts_value_nonneg: "fixed_point s \<Longrightarrow> 0 \<le> ts_value s"
proof -
  assume f: "fixed_point s"
  have a: "0 \<le> digits_val (takeWhile is_digit s)"
    by (rule digits_val_nonneg) (auto dest: set_takeWhileD)
  have "\<forall>c\<in>set (drop 1 (dropWhile is_digit s)). is_digit c"
  proof (cases "dropWhile is_digit s")
    case Nil
    then show ?thesis by (simp only: drop_Nil) simp
  next
    case (Cons c fp)
    then show ?thesis using f by (simp add: fixed_point_def list_all_iff)
  qed
  then have b: "0 \<le> digits_val (drop 1 (dropWhile is_digit s))"
    by (rule digits_val_nonneg)
  show ?thesis
    unfolding ts_value_def Let_def using a b by simp
qed

lemma parseFloat_fixed_point:
  assumes "fixed_point s"
  shows "parseFloat s = to_double (ts_value s)"
proof -
  define ip where "ip = takeWhile is_digit s"
  define r where "r = dropWhile is_digit s"
  have ip: "ip \<noteq> []" using assms by (simp add: fixed_point_def ip_def)
  then obtain c0 s0 where s: "s = c0 # s0" and c0: "is_digit c0"
    by (cases s) (auto simp: ip_def split: if_splits)
  have ws: "dropWhile is_ws s = s"
    using is_digit_props(1)[OF c0] by (simp add: s)
  have sg: "scan_sign s = (1, s)"
    using is_digit_props(2,3)[OF c0] by (simp add: s)
  have np: "\<not> prefix ''Infinity'' s"
    using is_digit_props(4)[OF c0] by (simp add: s)
  show ?thesis
  proof (cases r)
    case Nil
    then have "scan_decimal s = Some (to_double (ts_value s), [])"
      using ip
      by (simp add: scan_decimal_def sg np ip_def[symmetric] r_def[symmetric]
          scan_exponent_def pow10_def ts_value_def digits_val_def)
    then show ?thesis by (simp add: parseFloat_def ws)
  next
    case (Cons c fp)
    then have c: "c = CHR ''.''" and fp: "fp \<noteq> []" "list_all is_digit fp"
      using assms by (simp_all add: fixed_point_def r_def)
    have tw: "takeWhile is_digit fp = fp" "dropWhile is_digit fp = []"
      using fp(2) by (simp_all add: list_all_iff)
    have "scan_decimal s = Some (to_double (ts_value s), [])"
      using ip fp(1)
      by (simp add: scan_decimal_def sg np ip_def[symmetric] r_def[symmetric] Cons c tw
          scan_exponent_def pow10_def ts_value_def)
    then show ?thesis by (simp add: parseFloat_def ws)
  qed
qed


lemma pow2_double: "pow2 (b + 1) = 2 * pow2 b"
  using pow2_add[of b 1] by (simp add: pow2_def[of 1])

lemma ts_diff_double:
  assumes fp: "fixed_point (ts m)" and v: "ts_value (ts m) < pow2 b"
    and t: "\<bar>of_int t\<bar> < pow2 b" and b: "0 \<le> b" "b \<le> 900"
  shows "ts_diff t m = Fin (double_distance t m)"
    and "\<bar>double_distance t m - exact_distance t m\<bar> \<le> pow2 (b - 51)"
proof -
  define x where "x = ts_value (ts m)"
  have x0: "0 \<le> x" unfolding x_def using fp by (rule ts_value_nonneg)
  have xb: "\<bar>x\<bar> < pow2 b" using x0 v by (simp add: x_def)
  from to_double_error[OF xb] b obtain a where
    a: "to_double x = Fin a" and ae: "\<bar>a - x\<bar> \<le> pow2 (b - 54)" by auto
  have small: "pow2 (b - 54) \<le> pow2 b" "pow2 (b - 54) \<le> pow2 (b - 52)"
    by (intro pow2_mono; simp)+
  have four: "pow2 (b + 2) = 4 * pow2 b"
    using pow2_double[of "b + 1"] pow2_double[of b] by (simp add: add.commute)
  have "\<bar>a - of_int t\<bar> \<le> \<bar>a - x\<bar> + \<bar>x\<bar> + \<bar>of_int t :: rat\<bar>" by simp
  also have "\<dots> < pow2 (b + 2)"
    using ae xb t small(1) pow2_pos[of b] unfolding four by linarith
  finally have db: "\<bar>a - of_int t\<bar> < pow2 (b + 2)" .
  from to_double_error[OF db] b obtain c where
    c: "to_double (a - of_int t) = Fin c" and ce: "\<bar>c - (a - of_int t)\<bar> \<le> pow2 (b - 52)"
    by auto
  have dd: "double_distance t m = \<bar>c\<bar>"
    by (simp add: double_distance_def double_value_def x_def[symmetric] a c)
  show "ts_diff t m = Fin (double_distance t m)"
    by (simp add: ts_diff_def parseFloat_fixed_point[OF fp] x_def[symmetric] a c dd)
  have two: "pow2 (b - 51) = 2 * pow2 (b - 52)"
    using pow2_double[of "b - 52"] by simp
  have "\<bar>\<bar>c\<bar> - \<bar>x - of_int t\<bar>\<bar> \<le> \<bar>c - (x - of_int t)\<bar>" by simp
  also have "\<dots> \<le> \<bar>c - (a - of_int t)\<bar> + \<bar>a - x\<bar>" by simp
  also have "\<dots> \<le> pow2 (b - 51)"
    using ae ce small(2) unfolding two by linarith
  finally show "\<bar>double_distance t m - exact_distance t m\<bar> \<le> pow2 (b - 51)"
    by (simp add: dd exact_distance_def x_def)
qed

lemma search_loop_success:
  assumes "r + i \<le> MAX_RETRIES"
    and "\<forall>j<i. attempt_fails (remote w (calls w + j) (history_search channel timestamp))"
    and "remote w (calls w + i) (history_search channel timestamp) = (Resolved d, latency)"
    and "latency < MESSAGE_SEARCH_TIMEOUT" "ok d" "messages d = Some (m0 # ms)"
  shows "fst (search_loop channel timestamp cacheKey r w) = Inr (closestMessage timestamp m0 ms)"
  using assms(1,2,3)
proof (induction i arbitrary: r w)
  case 0
  have "fst (search_attempt channel timestamp w) = Inr (closestMessage timestamp m0 ms)"
    using "0.prems"(3) assms(4,5,6) by (simp add: search_attempt_def axios_race_def)
  then show ?case
    using "0.prems"(1) by (subst search_loop.simps) (simp add: split_def split: sum.splits)
next
  case (Suc i)
  let ?req = "history_search channel timestamp"
  have "attempt_fails (remote w (calls w) ?req)"
    using Suc.prems(2)[rule_format, of 0] by simp
  from search_attempt_fails[OF this] obtain e w1 where
    a: "search_attempt channel timestamp w = (Inl e, w1)"
    and f: "remote w1 = remote w" "calls w1 = calls w + 1"
    by auto
  define w2 where "w2 = sleep (500 * (r + 1)) w1"
  have g: "remote w2 = remote w" "calls w2 = calls w + 1"
    by (simp_all add: w2_def sleep_frame f)
  have "fst (search_loop channel timestamp cacheKey (r + 1) w2)
          = Inr (closestMessage timestamp m0 ms)"
  proof (rule Suc.IH)
    show "r + 1 + i \<le> MAX_RETRIES" using Suc.prems(1) by simp
    show "\<forall>j<i. attempt_fails (remote w2 (calls w2 + j) ?req)"
      using Suc.prems(2) by (auto simp: g)
    show "remote w2 (calls w2 + i) ?req = (Resolved d, latency)"
      using Suc.prems(3) by (simp add: g)
  qed
  moreover have "\<not> MAX_RETRIES < r + 1" "r \<le> MAX_RETRIES" using Suc.prems(1) by simp_all
  ultimately show ?case
    by (subst search_loop.simps) (simp add: a w2_def)
qed

text \<open>
  Claim C4, as the code has it. The lookup misses the cache, the attempts before the
  \<open>i\<close>-th fail, and the \<open>i\<close>-th history query (the first one or a retry) is answered in
  time with a list of candidates that is not empty, each with a fixed-point timestamp
  below \<open>2^b\<close>, for a target below \<open>2^b\<close> in magnitude. Then \<open>findMessageByTimestamp\<close>
  returns a candidate whose distance to the target, computed in double arithmetic, is
  minimal, and every candidate before it in the list has a strictly larger such
  distance. Its exact distance exceeds no candidate's exact distance by more than
  \<open>2^(b-50)\<close> seconds (\<open>2^-18\<close> for epoch seconds below \<open>2^32\<close>); and where the double
  distances are the exact ones, it is a candidate of minimal exact distance, the first
  of them in the returned order.
\<close>

theorem search_selects_first_closest:
  assumes miss: "fst (cache_get (cache_key channel (show_int timestamp)) w) = None"
    and i: "i \<le> MAX_RETRIES"
    and earlier: "\<forall>j<i. attempt_fails (remote w (calls w + j) (history_search channel timestamp))"
    and reply: "remote w (calls w + i) (history_search channel timestamp) = (Resolved d, latency)"
    and intime: "latency < MESSAGE_SEARCH_TIMEOUT"
    and okd: "ok d"
    and cands: "messages d = Some candidates" "candidates \<noteq> []"
    and size: "0 \<le> b" "b \<le> 900"
    and target: "\<bar>of_int timestamp\<bar> < pow2 b"
    and wf: "\<forall>m\<in>set candidates. fixed_point (ts m) \<and> ts_value (ts m) < pow2 b"
  shows "\<exists>k<length candidates.
           fst (findMessageByTimestamp channel timestamp w) = Inr (candidates ! k)
           \<and> (\<forall>j<length candidates.
                 double_distance timestamp (candidates ! k)
                   \<le> double_distance timestamp (candidates ! j))
           \<and> (\<forall>j<k. double_distance timestamp (candidates ! k)
                        < double_distance timestamp (candidates ! j))
           \<and> (\<forall>j<length candidates.
                 exact_distance timestamp (candidates ! k)
                   \<le> exact_distance timestamp (candidates ! j) + pow2 (b - 50))
           \<and> ((\<forall>m\<in>set candidates. double_distance timestamp m = exact_distance timestamp m) \<longrightarrow>
                 (\<forall>j<length candidates.
                    exact_distance timestamp (candidates ! k)
                      \<le> exact_distance timestamp (candidates ! j))
                 \<and> (\<forall>j<k. exact_distance timestamp (candidates ! k)
                             < exact_distance timestamp (candidates ! j)))"
proof -
  let ?key = "cache_key channel (show_int timestamp)"
  let ?dd = "double_distance timestamp"
  let ?ex = "exact_distance timestamp"
  from cands obtain m0 ms where c: "candidates = m0 # ms"
    by (cases candidates) auto
  define w0 where "w0 = snd (cache_get ?key w)"
  have cg: "cache_get ?key w = (None, w0)"
    using miss by (simp add: w0_def prod_eq_iff)
  have f0: "remote w0 = remote w" "calls w0 = calls w"
    by (simp_all add: w0_def cache_get_frame)
  have "fst (search_loop channel timestamp ?key 0 w0) = Inr (closestMessage timestamp m0 ms)"
    using i earlier reply intime okd cands(1)
    by (intro search_loop_success[where i = i and d = d and latency = latency])
       (simp_all add: f0 c)
  then have found: "fst (findMessageByTimestamp channel timestamp w)
                      = Inr (closestMessage timestamp m0 ms)"
    by (simp add: findMessageByTimestamp_def cg)
  have td: "ts_diff timestamp (candidates ! j) = Fin (?dd (candidates ! j))"
    and er: "\<bar>?dd (candidates ! j) - ?ex (candidates ! j)\<bar> \<le> pow2 (b - 51)"
    if "j < length candidates" for j
    using ts_diff_double[OF _ _ target size, of "candidates ! j"] wf that by simp_all
  have num: "\<forall>m\<in>set (m0 # ms). parseFloat (ts m) \<noteq> NaN"
    using wf c by (auto simp: parseFloat_fixed_point to_double_not_NaN)
  from closestMessage_first_min[OF num, of timestamp]
  obtain k where k: "k < length candidates"
    and sel: "closestMessage timestamp m0 ms = candidates ! k"
    and least: "\<forall>j<length candidates.
              \<not> js_lt (ts_diff timestamp (candidates ! j)) (ts_diff timestamp (candidates ! k))"
    and first: "\<forall>j<k. js_lt (ts_diff timestamp (candidates ! k)) (ts_diff timestamp (candidates ! j))"
    unfolding c by blast
  have l2: "?dd (candidates ! k) \<le> ?dd (candidates ! j)" if "j < length candidates" for j
    using least[rule_format, OF that] td[OF that] td[OF k] by simp
  have f2: "?dd (candidates ! k) < ?dd (candidates ! j)" if "j < k" for j
  proof -
    have "j < length candidates" using that k by simp
    then show ?thesis using first[rule_format, OF that] td td[OF k] by simp
  qed
  define eps where "eps = pow2 (b - 51)"
  have two: "eps + eps = pow2 (b - 50)"
    using pow2_double[of "b - 51"] by (simp add: eps_def)
  have tol: "?ex (candidates ! k) \<le> ?ex (candidates ! j) + pow2 (b - 50)"
    if "j < length candidates" for j
  proof -
    have "\<bar>?dd (candidates ! k) - ?ex (candidates ! k)\<bar> \<le> eps"
      "\<bar>?dd (candidates ! j) - ?ex (candidates ! j)\<bar> \<le> eps"
      unfolding eps_def using er[OF k] er[OF that] by blast+
    then have "?ex (candidates ! k) \<le> ?ex (candidates ! j) + (eps + eps)"
      using l2[OF that] by linarith
    then show ?thesis by (simp only: two)
  qed
  have same: "(\<forall>j<length candidates. ?ex (candidates ! k) \<le> ?ex (candidates ! j))
              \<and> (\<forall>j<k. ?ex (candidates ! k) < ?ex (candidates ! j))"
    if eq: "\<forall>m\<in>set candidates. ?dd m = ?ex m"
  proof -
    have e: "?dd (candidates ! j) = ?ex (candidates ! j)" if "j < length candidates" for j
      using eq that by simp
    show ?thesis
    proof (intro conjI allI impI)
      fix j assume "j < length candidates"
      then show "?ex (candidates ! k) \<le> ?ex (candidates ! j)"
        using l2[of j] e[of j] e[OF k] by simp
    next
      fix j assume "j < k"
      then show "?ex (candidates ! k) < ?ex (candidates ! j)"
        using f2[of j] e[of j] e[OF k] k by simp
    qed
  qed
  show ?thesis
    using k found sel l2 f2 tol same by (intro exI[of _ k]) simp
qed

lemma example_distances:
  "double_distance 101 near_100 = 1" "double_distance 101 near_103 = 2"
  "exact_distance 101 near_100 = 1" "exact_distance 101 near_103 = 2"
  "fixed_point (ts near_100)" "fixed_point (ts near_103)"
  "ts_value (ts near_100) < pow2 32" "ts_value (ts near_103) < pow2 32"
  "\<bar>of_int 101\<bar> < pow2 32"
  by code_simp+

text \<open>
  After one failed attempt, for candidates at 100.0 and 103.0 and the target 101,
  the message at 100.0.
\<close>

theorem search_selects_first_closest_witness:
  "fst (findMessageByTimestamp ''C1'' 101 (start_world retry_remote)) = Inr near_100"
proof -
  let ?w = "start_world retry_remote"
  let ?cs = "[near_100, near_103]"
  have "\<exists>k<length ?cs.
           fst (findMessageByTimestamp ''C1'' 101 ?w) = Inr (?cs ! k)
           \<and> (\<forall>j<length ?cs. double_distance 101 (?cs ! k) \<le> double_distance 101 (?cs ! j))
           \<and> (\<forall>j<k. double_distance 101 (?cs ! k) < double_distance 101 (?cs ! j))
           \<and> (\<forall>j<length ?cs.
                 exact_distance 101 (?cs ! k) \<le> exact_distance 101 (?cs ! j) + pow2 (32 - 50))
           \<and> ((\<forall>m\<in>set ?cs. double_distance 101 m = exact_distance 101 m) \<longrightarrow>
                 (\<forall>j<length ?cs. exact_distance 101 (?cs ! k) \<le> exact_distance 101 (?cs ! j))
                 \<and> (\<forall>j<k. exact_distance 101 (?cs ! k) < exact_distance 101 (?cs ! j)))"
  proof (rule search_selects_first_closest[where i = 1 and b = 32
        and d = "ok_body\<lparr>messages := Some [near_100, near_103]\<rparr>" and latency = 100])
    show "fst (cache_get (cache_key ''C1'' (show_int 101)) ?w) = None"
      by (simp add: cache_get_def start_world_def)
    show "1 \<le> MAX_RETRIES" by (simp add: MAX_RETRIES_def)
    show "\<forall>j<1. attempt_fails (remote ?w (calls ?w + j) (history_search ''C1'' 101))"
      by (simp add: start_world_def retry_remote_def attempt_fails_def ok_body_def
          MESSAGE_SEARCH_TIMEOUT_def)
    show "remote ?w (calls ?w + 1) (history_search ''C1'' 101)
            = (Resolved (ok_body\<lparr>messages := Some [near_100, near_103]\<rparr>), 100)"
      by (simp add: start_world_def retry_remote_def)
    show "100 < MESSAGE_SEARCH_TIMEOUT" by (simp add: MESSAGE_SEARCH_TIMEOUT_def)
    show "ok (ok_body\<lparr>messages := Some [near_100, near_103]\<rparr>)" by (simp add: ok_body_def)
    show "messages (ok_body\<lparr>messages := Some [near_100, near_103]\<rparr>) = Some [near_100, near_103]"
      by simp
    show "[near_100, near_103] \<noteq> []" by simp
    show "0 \<le> (32 :: int)" "(32 :: int) \<le> 900" by simp_all
    show "\<bar>of_int 101\<bar> < pow2 32" by (rule example_distances)
    show "\<forall>m\<in>set [near_100, near_103].
            fixed_point (ts m) \<and> ts_value (ts m) < pow2 32"
      by (simp add: example_distances)
  qed
  then obtain k where k: "k < length ?cs"
    and r: "fst (findMessageByTimestamp ''C1'' 101 ?w) = Inr (?cs ! k)"
    and m: "\<forall>j<length ?cs. double_distance 101 (?cs ! k) \<le> double_distance 101 (?cs ! j)"
    by blast
  have "k = 0"
  proof (rule ccontr)
    assume "k \<noteq> 0"
    with k have "k = 1" by simp
    with m[rule_format, of 0] show False by (simp add: example_distances)
  qed
  with r show ?thesis by simp
qed

text \<open>
  Claim C4 as stated fails on a tie. The candidates at 63.9 and 64.1 are both exactly
  a tenth of a second from the target 64, and the search returns the second of them:
  as doubles, 64.1 lies closer to 64 than 63.9 does.
\<close>

lemma tie_facts:
  "exact_distance 64 below_64 = 1 / 10" "exact_distance 64 above_64 = 1 / 10"
  "fst (findMessageByTimestamp ''C1'' 64 (start_world tie_remote)) = Inr above_64"
  "fixed_point (ts below_64)" "fixed_point (ts above_64)"
  by code_simp+

theorem search_tie_counterexample:
  "fst (remote (start_world tie_remote) 0 (history_search ''C1'' 64))
     = Resolved (ok_body\<lparr>messages := Some [below_64, above_64]\<rparr>)
   \<and> fixed_point (ts below_64) \<and> fixed_point (ts above_64)
   \<and> exact_distance 64 below_64 = exact_distance 64 above_64
   \<and> fst (findMessageByTimestamp ''C1'' 64 (start_world tie_remote)) = Inr above_64
   \<and> above_64 \<noteq> below_64"
proof -
  have a: "fst (remote (start_world tie_remote) 0 (history_search ''C1'' 64))
             = Resolved (ok_body\<lparr>messages := Some [below_64, above_64]\<rparr>)"
    by (simp add: start_world_def tie_remote_def)
  have "ts above_64 \<noteq> ts below_64" by (simp add: above_64_def below_64_def)
  then have b: "above_64 \<noteq> below_64" by auto
  show ?thesis using a b by (simp add: tie_facts)
qed

subsection \<open>The time zone is never changed\<close>

lemma axios_zone: "zone (snd (axios req w)) = zone w"
  by (simp add: axios_def split: prod.splits)

lemma isBotInChannel_zone: "zone (snd (isBotInChannel channel w)) = zone w"
proof -
  have a: "\<And>req v. zone (snd (axios req v)) = zone v" by (rule axios_zone)
  show ?thesis
    unfolding isBotInChannel_def
    by (auto split: prod.splits reply.splits option.splits)
       (metis a snd_conv)+
qed


lemma joinChannel_zone: "zone (snd (joinChannel channel w)) = zone w"
  by (simp add: joinChannel_def catchE_def bindE_def await_def axios_def check_ok_def
      split: prod.splits reply.splits sum.splits)

lemma ensureBotInChannel_zone: "zone (snd (ensureBotInChannel channel w)) = zone w"
proof (cases "isBotInChannel channel w")
  case (Pair b w1)
  then have z: "zone w1 = zone w"
    using isBotInChannel_zone[of channel w] by simp
  show ?thesis
    using Pair z joinChannel_zone[of channel w1]
    by (cases "joinChannel channel w1")
       (auto simp: ensureBotInChannel_def bindE_def split: sum.splits)
qed


subsection \<open>The operations\<close>

text \<open>
  Claim C1, evaluated on the code. \<open>deleteMessage\<close> succeeds on the message found
  for 01/01/2024 00:00 (epoch 1704067200 on a UTC host), whose exact timestamp is
  \<open>1704067200.000100\<close>. It deletes the key built from that exact timestamp, while the
  search stored the message under the key built from the target 1704067200. A lookup
  for the same target right after the delete therefore returns the deleted message
  from the cache and makes no call.
\<close>

lemma delete_example:
  "fst (deleteMessage ''C1'' (Some ''01/01/2024'') (Some ''00:00'') (start_world demo_remote))
     = Inr \<lparr>response = ok_body,
            human_readable = Some ''Deleted message from 01/01/2024 at 00:00''\<rparr>"
  "trace after_delete =
     [Call AuthTest, Call (ConversationsMembers ''C1''),
      Call (ConversationsHistory ''C1'' (Some (1704067198, 1704067202)) 5),
      Call (ChatDelete ''C1'' ''1704067200.000100'')]"
  "fst (findMessageByTimestamp ''C1'' 1704067200 after_delete) = Inr hello"
  "trace (snd (findMessageByTimestamp ''C1'' 1704067200 after_delete)) = trace after_delete"
  by code_simp+

theorem delete_leaves_stale_cache_entry:
  "fst (deleteMessage ''C1'' (Some ''01/01/2024'') (Some ''00:00'') (start_world demo_remote))
     = Inr \<lparr>response = ok_body,
            human_readable = Some ''Deleted message from 01/01/2024 at 00:00''\<rparr>
   \<and> last (trace after_delete) = Call (ChatDelete ''C1'' ''1704067200.000100'')
   \<and> fst (findMessageByTimestamp ''C1'' 1704067200 after_delete) = Inr hello
   \<and> trace (snd (findMessageByTimestamp ''C1'' 1704067200 after_delete)) = trace after_delete"
  by (simp add: delete_example)

text \<open>
  Claim C6. Whenever \<open>editMessage\<close> succeeds, the date and time were parsed to a
  target, the search from the state left by the membership check returned a message
  \<open>m\<close>, the one call made after the search is the update with \<open>m\<close>'s own \<open>ts\<close>, and in
  the final state the cache holds, under the key of that \<open>ts\<close>, the message \<open>m\<close> with
  its text replaced by the new text, stamped with the final clock.
\<close>

theorem edit_uses_exact_timestamp:
  assumes "fst (editMessage channel date time newText w) = Inr r"
  shows "\<exists>timestamp m.
           parseDateTime (zone w) date time = Inr timestamp
         \<and> fst (findMessageByTimestamp channel timestamp (snd (ensureBotInChannel channel w))) = Inr m
         \<and> trace (snd (editMessage channel date time newText w)) =
             trace (snd (findMessageByTimestamp channel timestamp
                           (snd (ensureBotInChannel channel w))))
             @ [Call (ChatUpdate channel (ts m)
                        (str_or newText ''Updated message from InternshipBot!''))]
         \<and> messageCache (snd (editMessage channel date time newText w)) (cache_key channel (ts m)) =
             Some \<lparr>cached_message = m\<lparr>msg_text := newText\<rparr>,
                   cached_timestamp = clock (snd (editMessage channel date time newText w))\<rparr>"
proof -
  obtain e1 w1 where E: "ensureBotInChannel channel w = (e1, w1)" by (cases "ensureBotInChannel channel w")
  have z: "zone w1 = zone w" using ensureBotInChannel_zone[of channel w] E by simp
  show ?thesis
    using assms E z
    by (auto simp: editMessage_def catchE_def bindE_def await_def axios_def check_ok_def
        cache_set_def split: prod.splits sum.splits reply.splits if_splits)
qed

lemma edit_example:
  "fst (editMessage ''C1'' (Some ''01/01/2024'') (Some ''00:00'') (Some ''new text'')
          (start_world demo_remote))
     = Inr \<lparr>response = ok_body,
            human_readable = Some ''Edited message from 01/01/2024 at 00:00''\<rparr>"
  "parseDateTime (zone (start_world demo_remote)) (Some ''01/01/2024'') (Some ''00:00'')
     = Inr 1704067200"
  "fst (findMessageByTimestamp ''C1'' 1704067200
          (snd (ensureBotInChannel ''C1'' (start_world demo_remote)))) = Inr hello"
  by code_simp+

theorem edit_uses_exact_timestamp_witness:
  "last (trace (snd (editMessage ''C1'' (Some ''01/01/2024'') (Some ''00:00'') (Some ''new text'')
                       (start_world demo_remote))))
     = Call (ChatUpdate ''C1'' ''1704067200.000100'' ''new text'')
   \<and> messageCache (snd (editMessage ''C1'' (Some ''01/01/2024'') (Some ''00:00'') (Some ''new text'')
                          (start_world demo_remote))) ''C1:1704067200.000100''
     = Some \<lparr>cached_message = hello\<lparr>msg_text := Some ''new text''\<rparr>,
             cached_timestamp =
               clock (snd (editMessage ''C1'' (Some ''01/01/2024'') (Some ''00:00'')
                             (Some ''new text'') (start_world demo_remote)))\<rparr>"
  using edit_uses_exact_timestamp[OF edit_example(1)]
  by (auto simp: edit_example(2,3) hello_def cache_key_def str_or_def)




subsection \<open>Days, years and months\<close>

lemma div_succ:
  fixes x n :: int
  assumes "0 < n"
  shows "(x + 1) div n = x div n + (if (x + 1) mod n = 0 then 1 else 0)"
proof (cases "x mod n = n - 1")
  case True
  have "n * (x div n) + x mod n = x" by (rule mult_div_mod_eq)
  then have "n * (x div n) + (n - 1) = x" by (simp only: True)
  then have e: "x + 1 = (x div n + 1) * n" by (simp add: algebra_simps)
  have "(x + 1) div n = x div n + 1" using assms by (subst e) simp
  moreover have "(x + 1) mod n = 0" by (subst e) simp
  ultimately show ?thesis by simp
next
  case False
  have r: "0 \<le> x mod n" "x mod n < n" using assms by simp_all
  with False have r1: "0 \<le> x mod n + 1" "x mod n + 1 < n" by simp_all
  have e: "x + 1 = (x mod n + 1) + (x div n) * n" by (simp add: algebra_simps)
  have "(x + 1) div n = x div n" using r1 assms by (subst e, subst div_mult_self1) simp_all
  moreover have "(x + 1) mod n = x mod n + 1" using r1 by (subst e, subst mod_mult_self1) simp
  ultimately show ?thesis using r by simp
qed

lemma mod_shift:
  "((y::int) - 1968) mod 4 = y mod 4"
  "((y::int) - 1900) mod 100 = y mod 100"
  "((y::int) - 1600) mod 400 = y mod 400"
proof -
  have "y - 1968 = y + (- 492) * 4" "y - 1900 = y + (- 19) * 100" "y - 1600 = y + (- 4) * 400"
    by simp_all
  then show "(y - 1968) mod 4 = y mod 4" "(y - 1900) mod 100 = y mod 100"
    "(y - 1600) mod 400 = y mod 400"
    by (simp_all only: mod_mult_self1)
qed

lemma mod_chain:
  "(y::int) mod 400 = 0 \<Longrightarrow> y mod 100 = 0"
  "(y::int) mod 100 = 0 \<Longrightarrow> y mod 4 = 0"
proof -
  have "y mod 400 mod 100 = y mod 100" by (rule mod_mod_cancel) simp
  then show "y mod 400 = 0 \<Longrightarrow> y mod 100 = 0" by simp
  have "y mod 100 mod 4 = y mod 4" by (rule mod_mod_cancel) simp
  then show "y mod 100 = 0 \<Longrightarrow> y mod 4 = 0" by simp
qed

lemma DayFromYear_step:
  "DayFromYear (y + 1) = DayFromYear y + (if is_leap y then 366 else 365)"
proof -
  define p4 p100 p400 where "p4 = (y mod 4 = 0)" and "p100 = (y mod 100 = 0)"
    and "p400 = (y mod 400 = 0)"
  define A B C where "A = (y - 1969) div 4" and "B = (y - 1901) div 100"
    and "C = (y - 1601) div 400"
  have a: "y + 1 - 1969 = (y - 1969) + 1" "y + 1 - 1901 = (y - 1901) + 1"
    "y + 1 - 1601 = (y - 1601) + 1" by simp_all
  have b: "y - 1969 + 1 = y - 1968" "y - 1901 + 1 = y - 1900" "y - 1601 + 1 = y - 1600"
    by simp_all
  have m: "(y - 1969 + 1) mod 4 = y mod 4" "(y - 1901 + 1) mod 100 = y mod 100"
    "(y - 1601 + 1) mod 400 = y mod 400"
    by (simp_all only: b mod_shift)
  have d4: "(y + 1 - 1969) div 4 = A + (if p4 then 1 else 0)"
    unfolding a A_def p4_def by (simp only: div_succ[of 4] m)
  have d100: "(y + 1 - 1901) div 100 = B + (if p100 then 1 else 0)"
    unfolding a B_def p100_def by (simp only: div_succ[of 100] m)
  have d400: "(y + 1 - 1601) div 400 = C + (if p400 then 1 else 0)"
    unfolding a C_def p400_def by (simp only: div_succ[of 400] m)
  have l: "is_leap y = (p4 \<and> (\<not> p100 \<or> p400))"
    by (simp only: is_leap_def p4_def p100_def p400_def)
  have c: "p400 \<longrightarrow> p100" "p100 \<longrightarrow> p4"
    using mod_chain[of y] by (simp_all only: p4_def p100_def p400_def) blast+
  have n: "DayFromYear (y + 1)
            = 365 * (y + 1 - 1970) + (A + (if p4 then 1 else 0)) - (B + (if p100 then 1 else 0))
              + (C + (if p400 then 1 else 0))"
    by (simp only: DayFromYear_def d4 d100 d400)
  have o: "DayFromYear y = 365 * (y - 1970) + A - B + C"
    by (simp only: DayFromYear_def A_def B_def C_def)
  show ?thesis
    unfolding n o l using c by (cases p4; cases p100; cases p400) simp_all
qed


lemma DayFromYear_less: "DayFromYear y + 365 \<le> DayFromYear (y + 1)"
  by (simp add: DayFromYear_step)

lemma DayFromYear_mono_aux: "DayFromYear y + 365 * int n \<le> DayFromYear (y + int n)"
proof (induction n)
  case 0
  show ?case by simp
next
  case (Suc n)
  have "DayFromYear (y + int n) + 365 \<le> DayFromYear (y + int n + 1)"
    by (rule DayFromYear_less)
  with Suc show ?case by (simp add: algebra_simps)
qed

lemma DayFromYear_upper_aux: "DayFromYear (y + int n) \<le> DayFromYear y + 366 * int n"
proof (induction n)
  case 0
  show ?case by simp
next
  case (Suc n)
  have "DayFromYear (y + int n + 1) \<le> DayFromYear (y + int n) + 366"
    by (simp add: DayFromYear_step)
  with Suc show ?case by (simp add: algebra_simps)
qed

lemma DayFromYear_mono:
  assumes "y \<le> z"
  shows "DayFromYear y + 365 * (z - y) \<le> DayFromYear z"
    and "DayFromYear z \<le> DayFromYear y + 366 * (z - y)"
proof -
  have z: "z = y + int (nat (z - y))" using assms by simp
  show "DayFromYear y + 365 * (z - y) \<le> DayFromYear z"
    using DayFromYear_mono_aux[of y "nat (z - y)"] assms by simp
  show "DayFromYear z \<le> DayFromYear y + 366 * (z - y)"
    using DayFromYear_upper_aux[of y "nat (z - y)"] assms by simp
qed

lemma DayFromYear_1970: "DayFromYear 1970 = 0"
  by (simp add: DayFromYear_def)

lemma year_down_correct:
  "DayFromYear Y \<le> d \<Longrightarrow> d < DayFromYear (Y + 1) \<Longrightarrow> Y \<le> y \<Longrightarrow> year_down d y = Y"
proof (induction d y rule: year_down.induct)
  case (1 d y)
  show ?case
  proof (cases "DayFromYear y \<le> d")
    case True
    have "y < Y + 1"
    proof (rule ccontr)
      assume "\<not> y < Y + 1"
      then have le: "Y + 1 \<le> y" by simp
      from DayFromYear_mono(1)[OF le] le have "DayFromYear (Y + 1) \<le> DayFromYear y" by simp
      with True "1.prems"(2) show False by simp
    qed
    with "1.prems"(3) have "y = Y" by simp
    then show ?thesis using True by (subst year_down.simps) simp
  next
    case False
    with "1.prems"(1) have "y \<noteq> Y" by auto
    with "1.prems"(3) have "Y \<le> y - 1" by simp
    from "1.IH"[OF False "1.prems"(1,2) this] show ?thesis
      using False by (subst year_down.simps) simp
  qed
qed

lemma year_estimate:
  assumes "DayFromYear Y \<le> d"
  shows "Y \<le> 1970 + (if 0 \<le> d then d div 365 else d div 366)"
proof (cases "1970 \<le> Y")
  case True
  from DayFromYear_mono(1)[OF True] have "365 * (Y - 1970) \<le> DayFromYear Y"
    by (simp add: DayFromYear_1970)
  with assms have le: "365 * (Y - 1970) \<le> d" by simp
  then have "0 \<le> d" using True by simp
  moreover have "Y - 1970 \<le> d div 365"
    using le by (simp add: zdiv_mono1 [of "365 * (Y - 1970)" d 365, simplified])
  ultimately show ?thesis by simp
next
  case False
  then have le: "Y \<le> 1970" by simp
  from DayFromYear_mono(2)[OF le] have "366 * (Y - 1970) \<le> DayFromYear Y"
    by (simp add: DayFromYear_1970)
  with assms have l: "366 * (Y - 1970) \<le> d" by simp
  have "Y - 1970 \<le> d div 366"
    using l by (simp add: zdiv_mono1 [of "366 * (Y - 1970)" d 366, simplified])
  moreover have "0 \<le> d \<Longrightarrow> 0 \<le> d div 365" by simp
  ultimately show ?thesis using le by auto
qed

lemma YearFromDay_correct:
  assumes "0 \<le> k" "k < (if is_leap y then 366 else 365)"
  shows "YearFromDay (DayFromYear y + k) = y"
proof -
  have a: "DayFromYear y \<le> DayFromYear y + k" using assms by simp
  have b: "DayFromYear y + k < DayFromYear (y + 1)"
    using assms by (simp add: DayFromYear_step split: if_splits)
  show ?thesis
    unfolding YearFromDay_def
    by (rule year_down_correct[OF a b]) (rule year_estimate[OF a])
qed


lemma month_start_values:
  "month_start L 0 = 0" "month_start L 1 = 31"
  "month_start L 2 = 59 + (if L then 1 else 0)" "month_start L 3 = 90 + (if L then 1 else 0)"
  "month_start L 4 = 120 + (if L then 1 else 0)" "month_start L 5 = 151 + (if L then 1 else 0)"
  "month_start L 6 = 181 + (if L then 1 else 0)" "month_start L 7 = 212 + (if L then 1 else 0)"
  "month_start L 8 = 243 + (if L then 1 else 0)" "month_start L 9 = 273 + (if L then 1 else 0)"
  "month_start L 10 = 304 + (if L then 1 else 0)" "month_start L 11 = 334 + (if L then 1 else 0)"
  by (simp_all add: month_start_def)

lemma month_table:
  assumes "1 \<le> m" "m \<le> 12" "1 \<le> dd"
    and "dd \<le> (if m = 2 then (if L then 29 else 28)
                 else if m \<in> {4, 6, 9, 11} then 30 else 31)"
    and "k = month_start L (m - 1) + dd - 1"
  shows "0 \<le> k \<and> k < (if L then 366 else 365)
    \<and> (if k < month_start L 1 then 0 else if k < month_start L 2 then 1
         else if k < month_start L 3 then 2 else if k < month_start L 4 then 3
         else if k < month_start L 5 then 4 else if k < month_start L 6 then 5
         else if k < month_start L 7 then 6 else if k < month_start L 8 then 7
         else if k < month_start L 9 then 8 else if k < month_start L 10 then 9
         else if k < month_start L 11 then 10 else 11) = m - 1"
proof -
  have "m = 1 \<or> m = 2 \<or> m = 3 \<or> m = 4 \<or> m = 5 \<or> m = 6 \<or> m = 7 \<or> m = 8 \<or> m = 9
          \<or> m = 10 \<or> m = 11 \<or> m = 12"
    using assms(1,2) by arith
  then consider "m = 1" | "m = 2" | "m = 3" | "m = 4" | "m = 5" | "m = 6" | "m = 7" | "m = 8"
    | "m = 9" | "m = 10" | "m = 11" | "m = 12"
    by blast
  then show ?thesis
  proof cases
    case 1 then show ?thesis using assms(3,4,5) by (cases L) (simp_all add: month_start_values)
  next
    case 2 then show ?thesis using assms(3,4,5) by (cases L) (simp_all add: month_start_values)
  next
    case 3 then show ?thesis using assms(3,4,5) by (cases L) (simp_all add: month_start_values)
  next
    case 4 then show ?thesis using assms(3,4,5) by (cases L) (simp_all add: month_start_values)
  next
    case 5 then show ?thesis using assms(3,4,5) by (cases L) (simp_all add: month_start_values)
  next
    case 6 then show ?thesis using assms(3,4,5) by (cases L) (simp_all add: month_start_values)
  next
    case 7 then show ?thesis using assms(3,4,5) by (cases L) (simp_all add: month_start_values)
  next
    case 8 then show ?thesis using assms(3,4,5) by (cases L) (simp_all add: month_start_values)
  next
    case 9 then show ?thesis using assms(3,4,5) by (cases L) (simp_all add: month_start_values)
  next
    case 10 then show ?thesis using assms(3,4,5) by (cases L) (simp_all add: month_start_values)
  next
    case 11 then show ?thesis using assms(3,4,5) by (cases L) (simp_all add: month_start_values)
  next
    case 12 then show ?thesis using assms(3,4,5) by (cases L) (simp_all add: month_start_values)
  qed
qed

lemma month_day_correct:
  assumes "1 \<le> m" "m \<le> 12" "1 \<le> dd" "dd \<le> days_in_month y m"
  shows "YearFromDay (DayFromYear y + month_start (is_leap y) (m - 1) + dd - 1) = y"
    and "MonthFromDay (DayFromYear y + month_start (is_leap y) (m - 1) + dd - 1) = m - 1"
    and "DateFromDay (DayFromYear y + month_start (is_leap y) (m - 1) + dd - 1) = dd"
proof -
  define L where "L = is_leap y"
  define k where "k = month_start L (m - 1) + dd - 1"
  have dim: "dd \<le> (if m = 2 then (if L then 29 else 28)
                     else if m \<in> {4, 6, 9, 11} then 30 else 31)"
    using assms(4) by (simp only: days_in_month_def L_def)
  note t = month_table[OF assms(1,2,3) dim k_def]
  have e: "DayFromYear y + month_start (is_leap y) (m - 1) + dd - 1 = DayFromYear y + k"
    by (simp add: k_def L_def)
  have yk: "YearFromDay (DayFromYear y + k) = y"
    by (rule YearFromDay_correct) (use t in \<open>simp_all only: L_def\<close>)
  have mk: "MonthFromDay (DayFromYear y + k) =
       (if k < month_start L 1 then 0 else if k < month_start L 2 then 1
         else if k < month_start L 3 then 2 else if k < month_start L 4 then 3
         else if k < month_start L 5 then 4 else if k < month_start L 6 then 5
         else if k < month_start L 7 then 6 else if k < month_start L 8 then 7
         else if k < month_start L 9 then 8 else if k < month_start L 10 then 9
         else if k < month_start L 11 then 10 else 11)"
    unfolding MonthFromDay_def yk Let_def L_def by simp
  have mo: "MonthFromDay (DayFromYear y + k) = m - 1"
    unfolding mk using t by blast
  show "YearFromDay (DayFromYear y + month_start (is_leap y) (m - 1) + dd - 1) = y"
    unfolding e by (rule yk)
  show "MonthFromDay (DayFromYear y + month_start (is_leap y) (m - 1) + dd - 1) = m - 1"
    unfolding e by (rule mo)
  have "DateFromDay (DayFromYear y + k) = k - month_start L (m - 1) + 1"
    unfolding DateFromDay_def yk mo Let_def L_def by simp
  then show "DateFromDay (DayFromYear y + month_start (is_leap y) (m - 1) + dd - 1) = dd"
    unfolding e by (simp add: k_def)
qed

subsection \<open>Parsing a valid date and reading it back\<close>

lemma trunc_of_int: "trunc (of_int n) = n"
  by (simp add: trunc_def)

lemma DayFromYear_bounds:
  assumes "1 \<le> y" "y \<le> 9999"
  shows "- 1000000 \<le> DayFromYear y" "DayFromYear y \<le> 3000000"
proof -
  have "- 1000000 \<le> DayFromYear y \<and> DayFromYear y \<le> 3000000"
  proof (cases "1970 \<le> y")
    case True
    from DayFromYear_mono[OF True] assms show ?thesis
      by (simp add: DayFromYear_1970)
  next
    case False
    then have "y \<le> 1970" by simp
    from DayFromYear_mono[OF this] assms show ?thesis
      by (simp add: DayFromYear_1970)
  qed
  then show "- 1000000 \<le> DayFromYear y" "DayFromYear y \<le> 3000000" by simp_all
qed

lemma month_start_bounds: "1 \<le> m \<Longrightarrow> m \<le> 12 \<Longrightarrow> 0 \<le> month_start L (m - 1) \<and> month_start L (m - 1) \<le> 335"
  by (simp add: month_start_def)


lemma time_of_day_bounds:
  assumes "0 \<le> h" "h \<le> 23" "0 \<le> mi" "mi \<le> 59" "0 \<le> s" "s \<le> (59::int)"
  shows "0 \<le> h * 3600000 + mi * 60000 + s * 1000"
    and "h * 3600000 + mi * 60000 + s * 1000 < 86400000"
  using assms by simp_all

lemma local_value_bounds:
  assumes "valid_calendar c"
  shows "\<bar>local_value c\<bar> \<le> 300000000000000"
    and "\<bar>DayFromYear (c_year c) + month_start (is_leap (c_year c)) (c_month c - 1) - 1
           + c_day c\<bar> \<le> 3100000"
proof -
  define D where "D = DayFromYear (c_year c)"
  define M where "M = month_start (is_leap (c_year c)) (c_month c - 1)"
  define T where "T = c_hours c * 3600000 + c_minutes c * 60000 + c_seconds c * 1000"
  have v: "1 \<le> c_year c" "c_year c \<le> 9999" "1 \<le> c_month c" "c_month c \<le> 12"
    "1 \<le> c_day c" "0 \<le> c_hours c" "c_hours c \<le> 23" "0 \<le> c_minutes c"
    "c_minutes c \<le> 59" "0 \<le> c_seconds c" "c_seconds c \<le> 59"
    using assms by (simp_all add: valid_calendar_def)
  have d31: "c_day c \<le> 31"
    using assms by (simp add: valid_calendar_def days_in_month_def split: if_splits)
  have D: "- 1000000 \<le> D" "D \<le> 3000000"
    unfolding D_def using DayFromYear_bounds[OF v(1,2)] by simp_all
  have M: "0 \<le> M" "M \<le> 335"
    unfolding M_def using month_start_bounds[OF v(3,4)] by simp_all
  have T: "0 \<le> T" "T < 86400000"
    unfolding T_def using time_of_day_bounds[OF v(6-11)] by simp_all
  have lv: "local_value c = (D + M + c_day c - 1) * 86400000 + T"
    by (simp add: local_value_def D_def M_def T_def msPerDay_def msPerHour_def
        msPerMinute_def msPerSecond_def)
  show "\<bar>local_value c\<bar> \<le> 300000000000000"
    unfolding lv using D M T v(5) d31 by simp
  show "\<bar>DayFromYear (c_year c) + month_start (is_leap (c_year c)) (c_month c - 1) - 1
           + c_day c\<bar> \<le> 3100000"
    unfolding D_def[symmetric] M_def[symmetric] using D M v(5) d31 by simp
qed

lemma MakeTime_valid:
  assumes "0 \<le> h" "h \<le> 23" "0 \<le> mi" "mi \<le> 59" "0 \<le> s" "s \<le> 59"
  shows "MakeTime (Fin (of_int h)) (Fin (of_int mi)) (Fin (of_int s)) (Fin 0)
           = Some (h * msPerHour + mi * msPerMinute + s * msPerSecond)"
proof -
  have a: "mul_d (Some h) (Some msPerHour) = Some (h * msPerHour)"
    using assms by (simp add: mul_d_def msPerHour_def dbl_exact)
  have b: "mul_d (Some mi) (Some msPerMinute) = Some (mi * msPerMinute)"
    using assms by (simp add: mul_d_def msPerMinute_def dbl_exact)
  have c: "mul_d (Some s) (Some msPerSecond) = Some (s * msPerSecond)"
    using assms by (simp add: mul_d_def msPerSecond_def dbl_exact)
  have d: "add_d (Some (h * msPerHour)) (Some (mi * msPerMinute))
             = Some (h * msPerHour + mi * msPerMinute)"
    using assms by (simp add: add_d_def msPerHour_def msPerMinute_def dbl_exact)
  have e: "add_d (Some (h * msPerHour + mi * msPerMinute)) (Some (s * msPerSecond))
             = Some (h * msPerHour + mi * msPerMinute + s * msPerSecond)"
    using assms
    by (simp add: add_d_def msPerHour_def msPerMinute_def msPerSecond_def dbl_exact)
  have f: "add_d (Some (h * msPerHour + mi * msPerMinute + s * msPerSecond)) (Some 0)
             = Some (h * msPerHour + mi * msPerMinute + s * msPerSecond)"
    using assms
    by (simp add: add_d_def msPerHour_def msPerMinute_def msPerSecond_def dbl_exact)
  have z: "trunc 0 = 0" by (simp add: trunc_def)
  show ?thesis
    unfolding MakeTime_def by (simp only: prod.case jsnum.case trunc_of_int z a b c d e f)
qed

lemma MakeDate_exact:
  assumes "\<bar>d\<bar> \<le> 3100000" "0 \<le> t" "t < 86400000"
  shows "MakeDate (Some d) (Some t) = Some (d * msPerDay + t)"
proof -
  have a: "mul_d (Some d) (Some msPerDay) = Some (d * msPerDay)"
    using assms by (simp add: mul_d_def msPerDay_def dbl_exact)
  have b: "add_d (Some (d * msPerDay)) (Some t) = Some (d * msPerDay + t)"
    using assms by (simp add: add_d_def msPerDay_def dbl_exact)
  show ?thesis unfolding MakeDate_def by (simp only: a b)
qed

lemma Date_valid:
  assumes v: "valid_calendar c" and y: "100 \<le> c_year c"
    and z: "\<bar>tza_local tz (local_value c)\<bar> \<le> msPerDay"
  shows "Date tz (Fin (of_int (c_year c))) (Fin (of_int (c_month c - 1))) (Fin (of_int (c_day c)))
           (Fin (of_int (c_hours c))) (Fin (of_int (c_minutes c))) (Fin (of_int (c_seconds c)))
         = Some (local_value c - tza_local tz (local_value c))"
proof -
  have r: "1 \<le> c_year c" "c_year c \<le> 9999" "1 \<le> c_month c" "c_month c \<le> 12"
    "0 \<le> c_hours c" "c_hours c \<le> 23" "0 \<le> c_minutes c"
    "c_minutes c \<le> 59" "0 \<le> c_seconds c" "c_seconds c \<le> 59"
    using v by (simp_all add: valid_calendar_def)
  have dm: "(c_month c - 1) div 12 = 0" "(c_month c - 1) mod 12 = c_month c - 1"
    using r(3,4) by simp_all
  define day where "day = DayFromYear (c_year c)
     + month_start (is_leap (c_year c)) (c_month c - 1) - 1 + c_day c"
  define tod where "tod = c_hours c * msPerHour + c_minutes c * msPerMinute
     + c_seconds c * msPerSecond"
  have db: "\<bar>day\<bar> \<le> 3100000"
    unfolding day_def by (rule local_value_bounds(2)[OF v])
  have rng: "- 1000000 \<le> (of_int (c_year c) :: rat)" "(of_int (c_year c) :: rat) \<le> 1000000"
    "- 10000000 \<le> (of_int (c_month c - 1) :: rat)"
    "(of_int (c_month c - 1) :: rat) \<le> 10000000"
    using r(1-4) by simp_all
  have md: "MakeDay (Fin (of_int (c_year c))) (Fin (of_int (c_month c - 1))) (Fin (of_int (c_day c)))
      = Some day"
    unfolding MakeDay_def Let_def
    using rng db
    by (simp only: prod.case jsnum.case trunc_of_int dm if_True simp_thms add_0_right
        day_def[symmetric]) (simp add: dbl_exact)
  have mt: "MakeTime (Fin (of_int (c_hours c))) (Fin (of_int (c_minutes c)))
              (Fin (of_int (c_seconds c))) (Fin 0) = Some tod"
    unfolding tod_def by (rule MakeTime_valid[OF r(5-10)])
  have tb: "0 \<le> tod" "tod < 86400000"
    unfolding tod_def msPerHour_def msPerMinute_def msPerSecond_def
    using time_of_day_bounds[OF r(5-10)] by simp_all
  have lv: "day * msPerDay + tod = local_value c"
    by (simp add: day_def tod_def local_value_def algebra_simps)
  have mk: "MakeDate (Some day) (Some tod) = Some (local_value c)"
    using MakeDate_exact[OF db tb] by (simp only: lv)
  have clip: "\<bar>local_value c - tza_local tz (local_value c)\<bar> \<le> maxTime"
    using local_value_bounds(1)[OF v] z by (simp add: maxTime_def msPerDay_def)
  have tc: "TimeClip (UTC tz (local_value c)) = Some (local_value c - tza_local tz (local_value c))"
    using clip by (simp add: TimeClip_def UTC_def)
  have yr: "\<not> (0 \<le> trunc (of_int (c_year c)) \<and> trunc (of_int (c_year c)) \<le> 99)"
    using y by (simp add: trunc_of_int)
  show ?thesis
    unfolding Date_def Let_def using yr
    by (simp only: jsnum.case if_False md mt mk option.case tc)
qed

lemma parseDateTime_valid:
  assumes v: "valid_calendar c" and y: "100 \<le> c_year c"
    and z: "\<bar>tza_local tz (local_value c)\<bar> \<le> msPerDay"
    and ws: "with_seconds \<or> c_seconds c = 0"
  shows "parseDateTime tz (Some (date_string c)) (Some (time_string with_seconds c))
           = Inr ((local_value c - tza_local tz (local_value c)) div 1000)"
proof -
  have r: "0 \<le> c_day c" "c_day c < 100" "0 \<le> c_month c" "c_month c < 100"
    "0 \<le> c_year c" "c_year c < 10000" "0 \<le> c_hours c" "c_hours c < 100"
    "0 \<le> c_minutes c" "c_minutes c < 100" "0 \<le> c_seconds c" "c_seconds c < 100"
    using v by (simp_all add: valid_calendar_def days_in_month_def split: if_splits)
  have nz: "c_day c \<noteq> 0" "c_month c \<noteq> 0" "c_year c \<noteq> 0"
    using v by (simp_all add: valid_calendar_def)
  have dp: "map Number (split (CHR ''/'') (date_string c))
              = [Fin (of_int (c_day c)), Fin (of_int (c_month c)), Fin (of_int (c_year c))]"
    unfolding date_string_def by (rule date_parts[OF r(1-6)])
  have tp: "map Number (split (CHR '':'') (time_string with_seconds c))
              = [Fin (of_int (c_hours c)), Fin (of_int (c_minutes c))]
                @ (if with_seconds then [Fin (of_int (c_seconds c))] else [])"
    using time_parts[OF r(7-12)] by (simp add: time_string_def)
  have ds: "str_truthy (Some (date_string c))" "str_truthy (Some (time_string with_seconds c))"
    by (simp_all add: str_truthy_def date_string_def time_string_def pad2_def)
  have tr: "num_truthy (Fin (of_int (c_day c)))" "num_truthy (Fin (of_int (c_month c)))"
    "num_truthy (Fin (of_int (c_year c)))"
    using nz by (simp_all add: num_truthy_def)
  have "to_double (of_int (c_month c - 1)) = Fin (of_int (c_month c - 1))"
    using r(3,4) by (intro to_double_int) simp
  then have mo: "js_sub (Fin (of_int (c_month c))) (Fin 1) = Fin (of_int (c_month c - 1))"
    by simp
  define seconds where "seconds =
    (case (if with_seconds then [Fin (of_int (c_seconds c))] else []) of
       [] \<Rightarrow> Fin 0 | s # _ \<Rightarrow> if num_truthy s then s else Fin 0)"
  have sec: "seconds = Fin (of_int (c_seconds c))"
    using ws by (auto simp: seconds_def num_truthy_def)
  have "parseDateTime_try tz (Some (date_string c)) (Some (time_string with_seconds c))
          = Inr ((local_value c - tza_local tz (local_value c)) div 1000)"
    unfolding parseDateTime_try_def
    using ds tr
    by (simp add: dp tp mo js_isNaN_def sec[unfolded seconds_def] Date_valid[OF v y z]
        del: js_sub.simps of_int_diff)
  then show ?thesis by (simp add: parseDateTime_def)
qed

lemma div_mod_decomp:
  fixes q r n :: int
  assumes "0 \<le> r" "r < n"
  shows "(q * n + r) div n = q" "(q * n + r) mod n = r"
  using assms by simp_all

lemma reformat_local_value:
  assumes v: "valid_calendar c"
    and loc: "LocalTime tz (e * 1000) = local_value c"
  shows "reformat tz e = c"
proof -
  define D where "D = DayFromYear (c_year c) + month_start (is_leap (c_year c)) (c_month c - 1)
                        + c_day c - 1"
  define h mi s where "h = c_hours c" and "mi = c_minutes c" and "s = c_seconds c"
  have r: "0 \<le> h" "h \<le> 23" "0 \<le> mi" "mi \<le> 59" "0 \<le> s" "s \<le> 59"
    using v by (simp_all add: valid_calendar_def h_def mi_def s_def)
  have lv: "local_value c = D * 86400000 + h * 3600000 + mi * 60000 + s * 1000"
    by (simp add: local_value_def D_def h_def mi_def s_def msPerDay_def msPerHour_def
        msPerMinute_def msPerSecond_def)
  have e1: "local_value c = D * 86400000 + (h * 3600000 + mi * 60000 + s * 1000)"
    and e2: "local_value c = (D * 24 + h) * 3600000 + (mi * 60000 + s * 1000)"
    and e3: "local_value c = ((D * 24 + h) * 60 + mi) * 60000 + s * 1000"
    and e4: "local_value c = (((D * 24 + h) * 60 + mi) * 60 + s) * 1000 + 0"
    unfolding lv by simp_all
  have day: "Day (local_value c) = D"
    unfolding Day_def msPerDay_def e1 using r by (intro div_mod_decomp(1)) simp_all
  have hr: "local_value c div msPerHour = D * 24 + h"
    unfolding msPerHour_def e2 using r by (intro div_mod_decomp(1)) simp_all
  have mn: "local_value c div msPerMinute = (D * 24 + h) * 60 + mi"
    unfolding msPerMinute_def e3 using r by (intro div_mod_decomp(1)) simp_all
  have sc: "local_value c div msPerSecond = ((D * 24 + h) * 60 + mi) * 60 + s"
    unfolding msPerSecond_def e4 by (intro div_mod_decomp(1)) simp_all
  have hr': "(D * 24 + h) mod 24 = h" using r by (intro div_mod_decomp(2)) simp_all
  have mn': "((D * 24 + h) * 60 + mi) mod 60 = mi" using r by (intro div_mod_decomp(2)) simp_all
  have sc': "(((D * 24 + h) * 60 + mi) * 60 + s) mod 60 = s"
    using r by (intro div_mod_decomp(2)) simp_all
  have m: "1 \<le> c_month c" "c_month c \<le> 12" "1 \<le> c_day c"
    "c_day c \<le> days_in_month (c_year c) (c_month c)"
    using v by (simp_all add: valid_calendar_def)
  note cal = month_day_correct[OF m, folded D_def]
  show ?thesis
    unfolding reformat_def Let_def loc day hr mn sc hr' mn' sc' cal
    by (simp add: h_def mi_def s_def)
qed

text \<open>
  Claim C8, as the code has it. Take a calendar date with a year from 100 to 9999 and
  a time of day, written \<open>dd/mm/yyyy\<close> and \<open>hh:mm:ss\<close> (or \<open>hh:mm\<close> when the seconds
  are zero), on a host whose offset at that local time is a whole number of seconds,
  at most a day, and equal to the offset the host applies to the resulting instant
  (the local time is not skipped by a change of the clocks). Then \<open>parseDateTime\<close>
  returns an epoch value, and that value read back in local time gives the day,
  month, year, hour, minute and second supplied.
\<close>

theorem valid_date_round_trip:
  assumes v: "valid_calendar c" and y: "100 \<le> c_year c"
    and ws: "with_seconds \<or> c_seconds c = 0"
    and whole: "1000 dvd tza_local tz (local_value c)"
    and small: "\<bar>tza_local tz (local_value c)\<bar> \<le> msPerDay"
    and same: "tza_utc tz (local_value c - tza_local tz (local_value c))
                 = tza_local tz (local_value c)"
  shows "\<exists>e. parseDateTime tz (Some (date_string c)) (Some (time_string with_seconds c)) = Inr e
             \<and> reformat tz e = c"
proof -
  define a where "a = tza_local tz (local_value c)"
  have "1000 dvd local_value c"
    by (simp add: local_value_def msPerDay_def msPerHour_def msPerMinute_def msPerSecond_def)
  then have "1000 dvd local_value c - a" using whole by (simp add: a_def)
  then have e: "(local_value c - a) div 1000 * 1000 = local_value c - a" by simp
  have "LocalTime tz ((local_value c - a) div 1000 * 1000) = local_value c"
    unfolding e LocalTime_def using same by (simp add: a_def)
  from reformat_local_value[OF v this] parseDateTime_valid[OF v y small ws]
  show ?thesis by (simp add: a_def)
qed

lemma new_year_eve_facts:
  "valid_calendar new_year_eve" "100 \<le> c_year new_year_eve" "c_seconds new_year_eve = 0"
  "local_value new_year_eve = 1704033000000"
  "date_string new_year_eve = ''31/12/2023''" "time_string False new_year_eve = ''14:30''"
  "parseDateTime spring_zone (Some ''31/12/2023'') (Some ''14:30'') = Inr 1704029400"
  by code_simp+

theorem valid_date_round_trip_witness:
  "parseDateTime spring_zone (Some ''31/12/2023'') (Some ''14:30'') = Inr 1704029400
   \<and> reformat spring_zone 1704029400 = new_year_eve"
proof -
  have "\<exists>e. parseDateTime spring_zone (Some (date_string new_year_eve))
               (Some (time_string False new_year_eve)) = Inr e
             \<and> reformat spring_zone e = new_year_eve"
    by (rule valid_date_round_trip) (simp_all add: new_year_eve_facts spring_zone_def msPerDay_def)
  then show ?thesis
    by (auto simp: new_year_eve_facts)
qed

text \<open>
  Claim C8 as stated fails in two ways. The date 01/01/0050 is read as 1 January
  1950, because \<open>Date\<close> takes a year from 0 to 99 as 1900 plus that year. And on a
  host whose clocks go forward at 02:00 on 31 March 2024, the time 02:30 of that day
  reads back as 03:30.
\<close>

lemma counter_facts:
  "valid_calendar new_year_50" "date_string new_year_50 = ''01/01/0050''"
  "time_string False new_year_50 = ''00:00''"
  "parseDateTime utc_zone (Some ''01/01/0050'') (Some ''00:00'') = Inr (- 631152000)"
  "c_year (reformat utc_zone (- 631152000)) = 1950"
  "valid_calendar spring_gap" "date_string spring_gap = ''31/03/2024''"
  "time_string False spring_gap = ''02:30''"
  "parseDateTime spring_zone (Some ''31/03/2024'') (Some ''02:30'') = Inr 1711848600"
  "c_hours (reformat spring_zone 1711848600) = 3"
  by code_simp+

theorem round_trip_counterexample:
  "valid_calendar new_year_50
   \<and> parseDateTime utc_zone (Some (date_string new_year_50))
         (Some (time_string False new_year_50)) = Inr (- 631152000)
   \<and> reformat utc_zone (- 631152000) \<noteq> new_year_50
   \<and> valid_calendar spring_gap
   \<and> parseDateTime spring_zone (Some (date_string spring_gap))
         (Some (time_string False spring_gap)) = Inr 1711848600
   \<and> reformat spring_zone 1711848600 \<noteq> spring_gap"
proof -
  have "c_year (reformat utc_zone (- 631152000)) \<noteq> c_year new_year_50"
    by (simp add: counter_facts new_year_50_def)
  then have a: "reformat utc_zone (- 631152000) \<noteq> new_year_50" by auto
  have "c_hours (reformat spring_zone 1711848600) \<noteq> c_hours spring_gap"
    by (simp add: counter_facts spring_gap_def)
  then have b: "reformat spring_zone 1711848600 \<noteq> spring_gap" by auto
  show ?thesis using a b by (simp add: counter_facts)
qed

end
